theory Spec2Isabelle
  imports Complex_Main
begin

section \<open>Paper-Trader: the row-preserving price synchroniser\<close>

text \<open>
  The repository holds two scripts with the same job. \<^verbatim>\<open>main.py\<close> reads column A of a
  worksheet, keeps the row number of every ticker, asks the price feed for the latest
  trade of every distinct ticker in batches, and writes each price into column C of the
  ticker's own row. \<^verbatim>\<open>papertrader_updater.py\<close> is the variant that keeps only the
  list of tickers, asks the feed for every ticker as listed, and writes a time stamp
  into column B and the price into column C of the rows from 2 downwards.

  Functions of \<^verbatim>\<open>main.py\<close> keep their names without the leading underscore;
  functions of \<^verbatim>\<open>papertrader_updater.py\<close> that differ carry the prefix
  \<open>updater_\<close>. \<^verbatim>\<open>_chunks\<close> is the same text in both files.
\<close>

subsection \<open>Strings\<close>

text \<open>
  Strings are lists of 8-bit characters, read as ASCII: \<^verbatim>\<open>str.strip()\<close> removes the
  ASCII white space of Python (code points 9 to 13 and 28 to 32) from both ends and
  \<^verbatim>\<open>str.upper()\<close> maps \<open>a\<close> to \<open>z\<close> onto \<open>A\<close> to \<open>Z\<close>. Characters
  beyond ASCII are neither white space nor letters here, so the two functions are those
  of Python on ASCII cells only: Python also trims the white space beyond ASCII (U+0085,
  U+00A0 and others) and upper-cases the letters beyond ASCII, some of them to more than
  one character. What is proved of the row numbers does not depend on how a cell is
  trimmed or upper-cased.
\<close>

type_synonym symbol = string

definition is_space :: "char \<Rightarrow> bool" where
  "is_space c =
     (let n = (of_char c :: nat) in (9 \<le> n \<and> n \<le> 13) \<or> (28 \<le> n \<and> n \<le> 32))"

definition strip :: "string \<Rightarrow> string" where
  "strip s = rev (dropWhile is_space (rev (dropWhile is_space s)))"

definition upper_char :: "char \<Rightarrow> char" where
  "upper_char c =
     (let n = (of_char c :: nat) in if 97 \<le> n \<and> n \<le> 122 then char_of (n - 32) else c)"

definition upper :: "string \<Rightarrow> string" where
  "upper s = map upper_char s"

definition startswith_dollar :: "string \<Rightarrow> bool" where
  "startswith_dollar s = (case s of [] \<Rightarrow> False | c # _ \<Rightarrow> c = CHR ''$'')"

text \<open>\<^verbatim>\<open>if sym.startswith("$"): sym = sym[1:]\<close>\<close>

definition strip_dollar :: "string \<Rightarrow> string" where
  "strip_dollar symb = (if startswith_dollar symb then drop 1 symb else symb)"

subsection \<open>Reading column A\<close>

text \<open>
  \<^verbatim>\<open>_get_rows_and_symbols\<close> of \<^verbatim>\<open>main.py\<close>. The loop
  \<^verbatim>\<open>for row_idx, raw in enumerate(col_a[1:], start=2)\<close> is \<open>rows_loop 2 (drop 1 col_a)\<close>:
  the cell is trimmed and upper-cased, tested for emptiness, and only then relieved of
  one leading dollar sign (\<^verbatim>\<open>sym = sym[1:]\<close>).
\<close>

fun rows_loop :: "nat \<Rightarrow> string list \<Rightarrow> (nat \<times> symbol) list" where
  "rows_loop row_idx [] = []"
| "rows_loop row_idx (raw # rest) =
     (let symb = upper (strip raw) in
      if symb \<noteq> []
      then (row_idx, strip_dollar symb) # rows_loop (Suc row_idx) rest
      else rows_loop (Suc row_idx) rest)"

definition get_rows_and_symbols :: "string list \<Rightarrow> (nat \<times> symbol) list" where
  "get_rows_and_symbols col_a = rows_loop 2 (drop 1 col_a)"

text \<open>
  \<^verbatim>\<open>_get_tickers\<close> of \<^verbatim>\<open>papertrader_updater.py\<close>:
  \<^verbatim>\<open>[t.strip().upper() for t in tickers if t.strip()]\<close> over the column without its
  header. No row number is kept and no dollar sign is removed.
\<close>

definition updater_get_tickers :: "string list \<Rightarrow> symbol list" where
  "updater_get_tickers col_a =
     map (\<lambda>t. upper (strip t)) (filter (\<lambda>t. strip t \<noteq> []) (drop 1 col_a))"

subsection \<open>Batches\<close>

datatype py_error = ValueError

text \<open>
  \<^verbatim>\<open>range(0, n, step)\<close>: a zero step raises \<^verbatim>\<open>ValueError\<close>, a negative step
  counts down from 0 and so yields nothing for \<open>n \<ge> 0\<close>, a positive step yields
  \<open>0, step, 2 * step, ...\<close> below \<open>n\<close>.
\<close>

definition py_range0 :: "nat \<Rightarrow> int \<Rightarrow> py_error + nat list" where
  "py_range0 n step =
     (if step = 0 then Inl ValueError
      else if step < 0 then Inr []
      else Inr (map (\<lambda>k. k * nat step) [0 ..< (n + nat step - 1) div nat step]))"

text \<open>
  \<^verbatim>\<open>_chunks(seq, size)\<close> yields \<^verbatim>\<open>seq[i:i+size]\<close> for every \<open>i\<close> of
  \<^verbatim>\<open>range(0, len(seq), size)\<close>. The generator raises when it is first advanced, which
  is before any request is made.
\<close>

definition chunks :: "'a list \<Rightarrow> int \<Rightarrow> py_error + 'a list list" where
  "chunks seq sz =
     (case py_range0 (length seq) sz of
        Inl e \<Rightarrow> Inl e
      | Inr starts \<Rightarrow> Inr (map (\<lambda>i. take (nat sz) (drop i seq)) starts))"

text \<open>
  \<^verbatim>\<open>list(dict.fromkeys(symbols))\<close>: the keys of a dictionary in insertion order, a key
  being inserted when it is first met.
\<close>

fun fromkeys_loop :: "'a list \<Rightarrow> 'a list \<Rightarrow> 'a list" where
  "fromkeys_loop keys [] = keys"
| "fromkeys_loop keys (x # xs) =
     fromkeys_loop (if x \<in> set keys then keys else keys @ [x]) xs"

definition dict_fromkeys :: "'a list \<Rightarrow> 'a list" where
  "dict_fromkeys xs = fromkeys_loop [] xs"

text \<open>
  The symbol set in the words of the specification: the distinct symbols in the order
  of their first occurrence.
\<close>

fun symbol_set :: "'a list \<Rightarrow> 'a list" where
  "symbol_set [] = []"
| "symbol_set (x # xs) = x # filter (\<lambda>y. y \<noteq> x) (symbol_set xs)"

subsection \<open>The price feed\<close>

text \<open>
  A trade carries a price that \<^verbatim>\<open>float(trade.price)\<close> either converts or rejects
  with an exception (\<open>None\<close>). Prices are real numbers here; they are stored and
  compared, never computed with. A request either raises or returns a mapping (the
  source's comment: the result is mapping-like), read through
  \<^verbatim>\<open>(result or {}).items()\<close> as a list of pairs (an absent result is the empty
  list). The client is called once per batch; \<open>client k batch\<close> is the outcome of
  request number \<open>k\<close> of the cycle, so the same batch may fail once and succeed later.
  Building the request object is taken to succeed; \<^verbatim>\<open>Raises\<close> is an exception of
  \<^verbatim>\<open>client.get_stock_latest_trade\<close>, which both scripts catch before they go on
  with the next batch.
\<close>

datatype trade = Trade (price: "real option")

datatype response = Raises | Returns "(symbol \<times> trade) list"

type_synonym client = "nat \<Rightarrow> symbol list \<Rightarrow> response"

type_synonym price_map = "symbol \<rightharpoonup> real"

fun store_items :: "price_map \<Rightarrow> (symbol \<times> trade) list \<Rightarrow> price_map" where
  "store_items prices [] = prices"
| "store_items prices ((symb, trade) # rest) =
     store_items (case price trade of Some p \<Rightarrow> prices(symb \<mapsto> p) | None \<Rightarrow> prices) rest"

fun fetch_loop :: "client \<Rightarrow> nat \<Rightarrow> price_map \<Rightarrow> symbol list list \<Rightarrow> price_map" where
  "fetch_loop client k prices [] = prices"
| "fetch_loop client k prices (batch # rest) =
     (case client k batch of
        Raises \<Rightarrow> fetch_loop client (Suc k) prices rest
      | Returns items \<Rightarrow> fetch_loop client (Suc k) (store_items prices items) rest)"

text \<open>
  The quotes of a fetch, for stating what the price map holds: the pairs of symbol and
  converted price that the successful requests returned, in the order in which the
  loop meets them. A request that raises adds none.
\<close>

fun parsed :: "(symbol \<times> trade) list \<Rightarrow> (symbol \<times> real) list" where
  "parsed [] = []"
| "parsed ((symb, trade) # rest) =
     (case price trade of Some p \<Rightarrow> [(symb, p)] | None \<Rightarrow> []) @ parsed rest"

fun quotes :: "client \<Rightarrow> nat \<Rightarrow> symbol list list \<Rightarrow> (symbol \<times> real) list" where
  "quotes client k [] = []"
| "quotes client k (batch # rest) =
     (case client k batch of Raises \<Rightarrow> [] | Returns items \<Rightarrow> parsed items)
       @ quotes client (Suc k) rest"

text \<open>\<^verbatim>\<open>_fetch_latest_prices\<close> of \<^verbatim>\<open>main.py\<close>, with \<^verbatim>\<open>CHUNK_SIZE\<close> as a parameter.\<close>

definition batches_of :: "int \<Rightarrow> symbol list \<Rightarrow> py_error + symbol list list" where
  "batches_of chunk_size symbols = chunks (dict_fromkeys symbols) chunk_size"

definition fetch_latest_prices :: "int \<Rightarrow> symbol list \<Rightarrow> client \<Rightarrow> py_error + price_map" where
  "fetch_latest_prices chunk_size symbols client =
     (if symbols = [] then Inr Map.empty
      else case batches_of chunk_size symbols of
             Inl e \<Rightarrow> Inl e
           | Inr batches \<Rightarrow> Inr (fetch_loop client 0 Map.empty batches))"

text \<open>
  \<^verbatim>\<open>_fetch_latest_prices\<close> of \<^verbatim>\<open>papertrader_updater.py\<close>: the symbols are cut into
  batches as they are listed.
\<close>

definition updater_batches_of :: "int \<Rightarrow> symbol list \<Rightarrow> py_error + symbol list list" where
  "updater_batches_of chunk_size symbols = chunks symbols chunk_size"

definition updater_fetch_latest_prices ::
  "int \<Rightarrow> symbol list \<Rightarrow> client \<Rightarrow> py_error + price_map" where
  "updater_fetch_latest_prices chunk_size symbols client =
     (if symbols = [] then Inr Map.empty
      else case updater_batches_of chunk_size symbols of
             Inl e \<Rightarrow> Inl e
           | Inr batches \<Rightarrow> Inr (fetch_loop client 0 Map.empty batches))"

subsection \<open>The worksheet\<close>

text \<open>
  The worksheet is the store behind the \<^verbatim>\<open>gspread\<close> handle: a grid of cells addressed
  by column number (A is 1) and row number, holding a number or a text (the empty text
  is a blank cell). \<^verbatim>\<open>col_values\<close> returns a column as displayed, down to its last
  cell that is not blank; \<open>number_format\<close> is how the sheet displays a number. A range
  in A1 notation is kept in parsed form: \<^verbatim>\<open>C7\<close> is \<open>Cell 3 7\<close> and \<^verbatim>\<open>B2:B9\<close> is
  \<open>Span 2 2 2 9\<close>. Values are laid out from the top left cell of the range, row by
  row, as given (\<^verbatim>\<open>RAW\<close>). Calls on the worksheet are taken to succeed.
\<close>

datatype cell_value = Number real | Text string

datatype a1_range = Cell nat nat | Span nat nat nat nat

record cell_update =
  u_range :: a1_range
  u_values :: "cell_value list list"

datatype ws_call = BatchUpdate "cell_update list" | Update a1_range "cell_value list list"

record worksheet =
  row_count :: nat
  cells :: "nat \<times> nat \<Rightarrow> cell_value"
  number_format :: "real \<Rightarrow> string"

definition display :: "worksheet \<Rightarrow> cell_value \<Rightarrow> string" where
  "display ws v = (case v of Text s \<Rightarrow> s | Number x \<Rightarrow> number_format ws x)"

definition col_values :: "worksheet \<Rightarrow> nat \<Rightarrow> string list" where
  "col_values ws c =
     rev (dropWhile (\<lambda>s. s = [])
            (rev (map (\<lambda>r. display ws (cells ws (c, r))) [1 ..< Suc (row_count ws)])))"

fun top_left :: "a1_range \<Rightarrow> nat \<times> nat" where
  "top_left (Cell c r) = (c, r)"
| "top_left (Span c r _ _) = (c, r)"

text \<open>
  The cells a range write assigns, with their values: row \<open>i\<close> of the values goes to
  sheet row \<open>r + i\<close>, its entry \<open>j\<close> to column \<open>c + j\<close>.
\<close>

fun row_assignments :: "nat \<Rightarrow> nat \<Rightarrow> cell_value list \<Rightarrow> ((nat \<times> nat) \<times> cell_value) list" where
  "row_assignments c r [] = []"
| "row_assignments c r (v # vs) = ((c, r), v) # row_assignments (Suc c) r vs"

fun rows_assignments ::
  "nat \<Rightarrow> nat \<Rightarrow> cell_value list list \<Rightarrow> ((nat \<times> nat) \<times> cell_value) list" where
  "rows_assignments c r [] = []"
| "rows_assignments c r (vs # vss) = row_assignments c r vs @ rows_assignments c (Suc r) vss"

definition range_assignments ::
  "a1_range \<Rightarrow> cell_value list list \<Rightarrow> ((nat \<times> nat) \<times> cell_value) list" where
  "range_assignments rng vss = rows_assignments (fst (top_left rng)) (snd (top_left rng)) vss"

fun assignments :: "ws_call \<Rightarrow> ((nat \<times> nat) \<times> cell_value) list" where
  "assignments (Update rng vss) = range_assignments rng vss"
| "assignments (BatchUpdate updates) =
     concat (map (\<lambda>u. range_assignments (u_range u) (u_values u)) updates)"

definition cells_written :: "ws_call \<Rightarrow> (nat \<times> nat) list" where
  "cells_written call = map fst (assignments call)"

fun assign ::
  "(nat \<times> nat \<Rightarrow> cell_value) \<Rightarrow> ((nat \<times> nat) \<times> cell_value) list \<Rightarrow> (nat \<times> nat \<Rightarrow> cell_value)" where
  "assign g [] = g"
| "assign g ((a, v) # rest) = assign (g(a := v)) rest"

definition perform :: "worksheet \<Rightarrow> ws_call \<Rightarrow> worksheet" where
  "perform ws call = ws\<lparr>cells := assign (cells ws) (assignments call)\<rparr>"

subsection \<open>Writing the prices\<close>

definition price_cell :: "price_map \<Rightarrow> symbol \<Rightarrow> cell_value" where
  "price_cell price_map symb = (case price_map symb of Some p \<Rightarrow> Number p | None \<Rightarrow> Text [])"

text \<open>
  \<^verbatim>\<open>_write_prices_exact_rows\<close> of \<^verbatim>\<open>main.py\<close>: one update per pair, at
  \<^verbatim>\<open>C{row_idx}\<close>, all sent in one \<^verbatim>\<open>batch_update\<close>. The function returns the calls
  it made; nothing is called for an empty list.
\<close>

definition build_updates :: "(nat \<times> symbol) list \<Rightarrow> price_map \<Rightarrow> cell_update list" where
  "build_updates rows_with_symbols price_map =
     map (\<lambda>(row_idx, symb).
            \<lparr>u_range = Cell 3 row_idx, u_values = [[price_cell price_map symb]]\<rparr>)
         rows_with_symbols"

definition write_prices_exact_rows :: "(nat \<times> symbol) list \<Rightarrow> price_map \<Rightarrow> ws_call list" where
  "write_prices_exact_rows rows_with_symbols price_map =
     (if rows_with_symbols = [] then []
      else let updates = build_updates rows_with_symbols price_map
           in if updates \<noteq> [] then [BatchUpdate updates] else [])"

text \<open>
  \<^verbatim>\<open>_write_prices\<close> of \<^verbatim>\<open>papertrader_updater.py\<close>: the time stamp (the clock
  reading, a parameter) goes to \<^verbatim>\<open>B2:B{n+1}\<close> and the prices to \<^verbatim>\<open>C2:C{n+1}\<close>,
  one row per listed symbol.
\<close>

definition updater_write_prices :: "string \<Rightarrow> symbol list \<Rightarrow> price_map \<Rightarrow> ws_call list" where
  "updater_write_prices timestamp symbols price_map =
     (if symbols = [] then []
      else let updates_colB = map (\<lambda>symb. [Text timestamp]) symbols;
               updates_colC = map (\<lambda>symb. [price_cell price_map symb]) symbols
           in [Update (Span 2 2 2 (length symbols + 1)) updates_colB,
               Update (Span 3 2 3 (length symbols + 1)) updates_colC])"

subsection \<open>One cycle\<close>

text \<open>
  The body of the \<^verbatim>\<open>while\<close> loop of \<^verbatim>\<open>main()\<close>: the calls made on the worksheet,
  or the exception caught by \<^verbatim>\<open>except Exception\<close> at the end of the iteration (the
  cycle then writes nothing). Without tickers the cycle sleeps and makes no call.
\<close>

definition cycle_calls :: "int \<Rightarrow> client \<Rightarrow> string list \<Rightarrow> py_error + ws_call list" where
  "cycle_calls chunk_size client col_a =
     (let rows_syms = get_rows_and_symbols col_a;
          symbols = map snd rows_syms
      in if symbols = [] then Inr []
         else case fetch_latest_prices chunk_size symbols client of
                Inl e \<Rightarrow> Inl e
              | Inr price_map \<Rightarrow> Inr (write_prices_exact_rows rows_syms price_map))"

definition updater_cycle_calls ::
  "int \<Rightarrow> client \<Rightarrow> string \<Rightarrow> string list \<Rightarrow> py_error + ws_call list" where
  "updater_cycle_calls chunk_size client timestamp col_a =
     (let symbols = updater_get_tickers col_a
      in if symbols = [] then Inr []
         else case updater_fetch_latest_prices chunk_size symbols client of
                Inl e \<Rightarrow> Inl e
              | Inr price_map \<Rightarrow> Inr (updater_write_prices timestamp symbols price_map))"

definition calls_of :: "py_error + ws_call list \<Rightarrow> ws_call list" where
  "calls_of outcome = (case outcome of Inl e \<Rightarrow> [] | Inr calls \<Rightarrow> calls)"

text \<open>The calls of a cycle that write prices: those whose cells all lie in column C.\<close>

definition price_calls :: "py_error + ws_call list \<Rightarrow> ws_call list" where
  "price_calls outcome =
     filter (\<lambda>call. list_all (\<lambda>a. fst a = 3) (cells_written call)) (calls_of outcome)"

definition main_cycle :: "int \<Rightarrow> client \<Rightarrow> worksheet \<Rightarrow> worksheet" where
  "main_cycle chunk_size client ws =
     foldl perform ws (calls_of (cycle_calls chunk_size client (col_values ws 1)))"

definition updater_cycle :: "int \<Rightarrow> client \<Rightarrow> string \<Rightarrow> worksheet \<Rightarrow> worksheet" where
  "updater_cycle chunk_size client timestamp ws =
     foldl perform ws (calls_of (updater_cycle_calls chunk_size client timestamp (col_values ws 1)))"

subsection \<open>Example inputs\<close>

text \<open>
  The column of the specification's scenario: a header, a ticker, a blank row, the same
  ticker in lower case and a ticker with a dollar sign.
\<close>

definition scenario_column :: "string list" where
  "scenario_column = [''SYMBOL'', ''AAPL'', '''', ''aapl'', ''$SPY'']"

text \<open>The feed of the scenario: the request for AAPL alone is answered, any other raises.\<close>

definition scenario_feed :: client where
  "scenario_feed k batch =
     (if batch = [''AAPL''] then Returns [(''AAPL'', Trade (Some 172.34))] else Raises)"

text \<open>A feed whose first request fails and whose later requests price every symbol asked for.\<close>

definition flaky_feed :: client where
  "flaky_feed k batch =
     (if k = 0 then Raises else Returns (map (\<lambda>s. (s, Trade (Some 1))) batch))"

text \<open>A feed that prices every symbol asked for, and one that answers with another symbol.\<close>

definition steady_feed :: client where
  "steady_feed k batch = Returns (map (\<lambda>s. (s, Trade (Some 1))) batch)"

definition chatty_feed :: client where
  "chatty_feed k batch = Returns [(''MSFT'', Trade (Some 1))]"

text \<open>
  A feed whose first request fails and whose later requests answer with AAPL and SPY,
  whatever was asked.
\<close>

definition broad_feed :: client where
  "broad_feed k batch =
     (if k = 0 then Raises
      else Returns [(''AAPL'', Trade (Some 1)), (''SPY'', Trade (Some 2))])"

text \<open>A worksheet of five rows that holds the scenario's column in column A.\<close>

definition scenario_sheet :: worksheet where
  "scenario_sheet =
     \<lparr>row_count = 5,
      cells = (\<lambda>a. if a = (1, 1) then Text ''SYMBOL''
                   else if a = (1, 2) then Text ''AAPL''
                   else if a = (1, 4) then Text ''aapl''
                   else if a = (1, 5) then Text ''$SPY''
                   else Text []),
      number_format = (\<lambda>x. ''0'')\<rparr>"

section \<open>Extraction\<close>

lemma rows_loop_bounds:
  "(r, s) \<in> set (rows_loop i xs) \<Longrightarrow> i \<le> r \<and> r < i + length xs"
proof (induction xs arbitrary: i)
  case Nil
  then show ?case by simp
next
  case (Cons raw rest)
  then show ?case
    by (fastforce simp: Let_def split: if_splits)
qed

lemma rows_loop_sorted: "sorted_wrt (<) (map fst (rows_loop i xs))"
proof (induction xs arbitrary: i)
  case Nil
  then show ?case by simp
next
  case (Cons raw rest)
  have "i < r" if "(r, s) \<in> set (rows_loop (Suc i) rest)" for r s
    using rows_loop_bounds [OF that] by simp
  with Cons show ?case
    by (auto simp: Let_def)
qed

lemma rows_loop_source:
  "(r, s) \<in> set (rows_loop i xs) \<Longrightarrow>
     upper (strip (xs ! (r - i))) \<noteq> [] \<and> s = strip_dollar (upper (strip (xs ! (r - i))))"
proof (induction xs arbitrary: i)
  case Nil
  then show ?case by simp
next
  case (Cons raw rest)
  show ?case
  proof (cases "r = i")
    case True
    have "(i, s) \<notin> set (rows_loop (Suc i) rest)"
      using rows_loop_bounds [of i s "Suc i" rest] by auto
    with Cons.prems True show ?thesis
      by (auto simp: Let_def split: if_splits)
  next
    case False
    with Cons.prems have mem: "(r, s) \<in> set (rows_loop (Suc i) rest)"
      by (auto simp: Let_def split: if_splits)
    from rows_loop_bounds [OF mem] have "Suc i \<le> r" by simp
    then have "(raw # rest) ! (r - i) = rest ! (r - Suc i)"
      by (simp add: Suc_diff_le)
    with Cons.IH [OF mem] show ?thesis by simp
  qed
qed

lemma rows_loop_complete:
  "j < length xs \<Longrightarrow> upper (strip (xs ! j)) \<noteq> [] \<Longrightarrow>
     (i + j, strip_dollar (upper (strip (xs ! j)))) \<in> set (rows_loop i xs)"
proof (induction xs arbitrary: i j)
  case Nil
  then show ?case by simp
next
  case (Cons raw rest)
  show ?case
  proof (cases j)
    case 0
    with Cons.prems show ?thesis by (simp add: Let_def)
  next
    case (Suc j')
    with Cons.prems Cons.IH [of j' "Suc i"] show ?thesis
      by (simp add: Let_def)
  qed
qed


lemma upper_char_idem: "upper_char (upper_char c) = upper_char c"
proof (cases "97 \<le> (of_char c :: nat) \<and> (of_char c :: nat) \<le> 122")
  case True
  then have "(of_char c - 32 :: nat) < 256"
    by arith
  then have "(of_char (char_of (of_char c - 32 :: nat)) :: nat) = of_char c - 32"
    by simp
  moreover from True have "\<not> 97 \<le> (of_char c :: nat) - 32"
    by arith
  ultimately show ?thesis
    using True by (simp add: upper_char_def Let_def)
next
  case False
  then show ?thesis by (auto simp add: upper_char_def Let_def)
qed

lemma upper_idem: "upper (upper s) = upper s"
  by (simp add: upper_def upper_char_idem)

lemma upper_drop: "upper (drop n (upper s)) = drop n (upper s)"
  by (simp add: upper_def upper_char_idem drop_map)

lemma upper_strip_dollar: "upper (strip_dollar (upper s)) = strip_dollar (upper s)"
  by (simp add: strip_dollar_def upper_drop upper_idem)

lemma strip_dollar_empty:
  "strip_dollar s = [] \<longleftrightarrow> s = [] \<or> s = ''$''"
  by (cases s) (auto simp: strip_dollar_def startswith_dollar_def)

lemma get_rows_and_symbols_sorted: "sorted_wrt (<) (map fst (get_rows_and_symbols col_a))"
  by (simp add: get_rows_and_symbols_def rows_loop_sorted)

lemma get_rows_and_symbols_source:
  assumes "(r, s) \<in> set (get_rows_and_symbols col_a)"
  shows "2 \<le> r \<and> r \<le> length col_a \<and> upper (strip (col_a ! (r - 1))) \<noteq> [] \<and>
      s = strip_dollar (upper (strip (col_a ! (r - 1))))"
proof -
  from assms have mem: "(r, s) \<in> set (rows_loop 2 (drop 1 col_a))"
    by (simp add: get_rows_and_symbols_def)
  from rows_loop_bounds [OF mem] have r: "2 \<le> r" "r < 2 + (length col_a - 1)"
    by simp_all
  then have "1 \<le> length col_a" and "1 + (r - 2) = r - 1"
    by arith+
  then have "drop 1 col_a ! (r - 2) = col_a ! (r - 1)"
    by (metis nth_drop)
  with rows_loop_source [OF mem] r show ?thesis
    by auto
qed

lemma get_rows_and_symbols_complete:
  assumes "2 \<le> r" and "r \<le> length col_a" and "upper (strip (col_a ! (r - 1))) \<noteq> []"
  shows "(r, strip_dollar (upper (strip (col_a ! (r - 1))))) \<in> set (get_rows_and_symbols col_a)"
proof -
  from assms(1,2) have j: "r - 2 < length (drop 1 col_a)"
    by simp
  from assms(1,2) have r: "2 + (r - 2) = r" and "1 \<le> length col_a" and "1 + (r - 2) = r - 1"
    by arith+
  then have "drop 1 col_a ! (r - 2) = col_a ! (r - 1)"
    by (metis nth_drop)
  with rows_loop_complete [OF j, of 2] assms(3) r show ?thesis
    by (simp add: get_rows_and_symbols_def)
qed

lemma symbols_are_upper_case:
  "(r, s) \<in> set (get_rows_and_symbols col_a) \<Longrightarrow> upper s = s"
  using get_rows_and_symbols_source [of r s col_a] by (simp add: upper_strip_dollar)

lemma symbol_empty_iff_lone_dollar:
  "(r, s) \<in> set (get_rows_and_symbols col_a) \<Longrightarrow>
     s = [] \<longleftrightarrow> upper (strip (col_a ! (r - 1))) = ''$''"
  using get_rows_and_symbols_source [of r s col_a] by (auto simp: strip_dollar_empty)

lemma header_only_column: "length col_a \<le> 1 \<Longrightarrow> get_rows_and_symbols col_a = []"
  by (simp add: get_rows_and_symbols_def)

lemma scenario_rows:
  "get_rows_and_symbols scenario_column = [(2, ''AAPL''), (4, ''AAPL''), (5, ''SPY'')]"
  by code_simp

lemma scenario_tickers: "updater_get_tickers scenario_column = [''AAPL'', ''AAPL'', ''$SPY'']"
  by code_simp

text \<open>
  C10. The row indices returned by \<^verbatim>\<open>_get_rows_and_symbols\<close> increase strictly, so
  no index occurs twice and a source row gives at most one pair; every index is at
  least 2 and is the position of the cell the symbol was read from.
\<close>

theorem row_indices_strictly_increasing:
  "sorted_wrt (<) (map fst (get_rows_and_symbols col_a)) \<and>
   distinct (map fst (get_rows_and_symbols col_a)) \<and>
   (\<forall>(r, s) \<in> set (get_rows_and_symbols col_a).
      2 \<le> r \<and> r \<le> length col_a \<and> upper (strip (col_a ! (r - 1))) \<noteq> [] \<and>
      s = strip_dollar (upper (strip (col_a ! (r - 1)))))"
proof -
  have "distinct (map fst (get_rows_and_symbols col_a))"
    using get_rows_and_symbols_sorted [of col_a] by (simp add: strict_sorted_iff)
  then show ?thesis
    using get_rows_and_symbols_sorted [of col_a] get_rows_and_symbols_source [of _ _ col_a]
    by auto
qed

theorem row_indices_strictly_increasing_witness:
  "map fst (get_rows_and_symbols scenario_column) = [2, 4, 5] \<and>
   sorted_wrt (<) (map fst (get_rows_and_symbols scenario_column)) \<and>
   distinct (map fst (get_rows_and_symbols scenario_column)) \<and>
   (4, ''AAPL'') \<in> set (get_rows_and_symbols scenario_column) \<and>
   ''AAPL'' = strip_dollar (upper (strip (scenario_column ! (4 - 1))))"
proof -
  have mem: "(4, ''AAPL'') \<in> set (get_rows_and_symbols scenario_column)"
    by (simp add: scenario_rows)
  from row_indices_strictly_increasing [of scenario_column] mem scenario_rows show ?thesis
    by auto
qed

text \<open>
  C4. Extraction drops the header, trims and upper-cases every later cell, removes one
  leading dollar sign and keeps the cell's row number. The test for emptiness comes
  before the dollar sign is removed, so a cell holding only \<^verbatim>\<open>$\<close> is not
  discarded: it yields a pair with the empty symbol.
\<close>

theorem lone_dollar_yields_empty_symbol:
  "get_rows_and_symbols [''SYMBOL'', ''AAPL'', ''$''] = [(2, ''AAPL''), (3, [])]"
  by code_simp

section \<open>Batches\<close>

lemma concat_slices:
  "concat (map (\<lambda>i. take s (drop i xs)) (map (\<lambda>k. k * s) [0 ..< m])) = take (m * s) xs"
proof (induction m)
  case 0
  then show ?case by simp
next
  case (Suc m)
  have "take (m * s + s) xs = take (m * s) xs @ take s (drop (m * s) xs)"
    by (rule take_add)
  with Suc show ?case by (simp add: add.commute)
qed

lemma ceil_div_covers:
  assumes "0 < (s::nat)"
  shows "n \<le> ((n + s - 1) div s) * s"
proof -
  have "(n + s - 1) mod s < s" using assms by simp
  moreover have "((n + s - 1) div s) * s + (n + s - 1) mod s = n + s - 1"
    by simp
  ultimately show ?thesis using assms by linarith
qed

lemma ceil_div_starts:
  assumes "0 < (s::nat)" and "k < (n + s - 1) div s"
  shows "k * s < n"
proof -
  have "Suc k \<le> (n + s - 1) div s" using assms(2) by simp
  then have "Suc k * s \<le> ((n + s - 1) div s) * s"
    by (rule mult_le_mono1)
  also have "\<dots> \<le> n + s - 1"
    by simp
  finally show ?thesis using assms(1) by simp
qed

lemma chunks_zero: "chunks seq 0 = Inl ValueError"
  by (simp add: chunks_def py_range0_def)

lemma chunks_negative: "sz < 0 \<Longrightarrow> chunks seq sz = Inr []"
  by (simp add: chunks_def py_range0_def)

lemma chunks_positive:
  assumes "0 < sz"
  shows "chunks seq sz =
     Inr (map (\<lambda>i. take (nat sz) (drop i seq))
            (map (\<lambda>k. k * nat sz) [0 ..< (length seq + nat sz - 1) div nat sz]))"
  using assms by (simp add: chunks_def py_range0_def)

lemma chunks_concat:
  assumes "0 < sz" and "chunks seq sz = Inr bs"
  shows "concat bs = seq"
proof -
  from assms have "concat bs = take (((length seq + nat sz - 1) div nat sz) * nat sz) seq"
    by (simp only: chunks_positive concat_slices sum.inject)
      (metis concat_slices)
  moreover have "length seq \<le> ((length seq + nat sz - 1) div nat sz) * nat sz"
    using assms(1) by (intro ceil_div_covers) simp
  ultimately show ?thesis by simp
qed

lemma chunks_bounded:
  assumes "0 < sz" and "chunks seq sz = Inr bs" and "b \<in> set bs"
  shows "b \<noteq> [] \<and> length b \<le> nat sz"
proof -
  from assms obtain k where k: "k < (length seq + nat sz - 1) div nat sz"
    and b: "b = take (nat sz) (drop (k * nat sz) seq)"
    by (auto simp: chunks_positive)
  from assms(1) k have "k * nat sz < length seq"
    by (intro ceil_div_starts) simp_all
  with assms(1) b show ?thesis by simp
qed

lemma fromkeys_loop_eq:
  "distinct keys \<Longrightarrow>
     fromkeys_loop keys xs = keys @ filter (\<lambda>y. y \<notin> set keys) (symbol_set xs)"
proof (induction xs arbitrary: keys)
  case Nil
  then show ?case by simp
next
  case (Cons x xs)
  show ?case
  proof (cases "x \<in> set keys")
    case True
    then have "filter (\<lambda>y. y \<notin> set keys) (filter (\<lambda>y. y \<noteq> x) (symbol_set xs)) =
               filter (\<lambda>y. y \<notin> set keys) (symbol_set xs)"
      by (auto intro: filter_cong)
    with True Cons show ?thesis by simp
  next
    case False
    have "filter (\<lambda>y. y \<notin> set (keys @ [x])) (symbol_set xs) =
          filter (\<lambda>y. y \<notin> set keys) (filter (\<lambda>y. y \<noteq> x) (symbol_set xs))"
      by (auto intro: filter_cong)
    with False Cons.prems Cons.IH [of "keys @ [x]"] show ?thesis by simp
  qed
qed

lemma dict_fromkeys_symbol_set: "dict_fromkeys xs = symbol_set xs"
  by (simp add: dict_fromkeys_def fromkeys_loop_eq)

lemma set_symbol_set: "set (symbol_set xs) = set xs"
  by (induction xs) auto

lemma distinct_symbol_set: "distinct (symbol_set xs)"
  by (induction xs) auto

lemma batches_partition_symbol_set:
  assumes "0 < n"
  shows "\<exists>bs. batches_of n symbols = Inr bs \<and> concat bs = symbol_set symbols \<and>
     distinct (concat bs) \<and> set (concat bs) = set symbols \<and>
     (\<forall>b \<in> set bs. b \<noteq> [] \<and> length b \<le> nat n)"
proof -
  from assms obtain bs where bs: "chunks (dict_fromkeys symbols) n = Inr bs"
    by (auto simp: chunks_positive)
  from chunks_concat [OF assms bs] have c: "concat bs = symbol_set symbols"
    by (simp add: dict_fromkeys_symbol_set)
  have d: "distinct (concat bs)" and s: "set (concat bs) = set symbols"
    by (simp_all only: c distinct_symbol_set set_symbol_set)
  have b: "\<forall>b \<in> set bs. b \<noteq> [] \<and> length b \<le> nat n"
    using chunks_bounded [OF assms bs] by blast
  from bs have "batches_of n symbols = Inr bs"
    by (simp add: batches_of_def)
  with c d s b show ?thesis
    by blast
qed

lemma updater_batches_concat:
  assumes "0 < n"
  shows "\<exists>bs. updater_batches_of n symbols = Inr bs \<and> concat bs = symbols \<and>
     (\<forall>b \<in> set bs. b \<noteq> [] \<and> length b \<le> nat n)"
proof -
  from assms obtain bs where bs: "chunks symbols n = Inr bs"
    by (auto simp: chunks_positive)
  from chunks_concat [OF assms bs] chunks_bounded [OF assms bs] bs show ?thesis
    by (auto simp: updater_batches_of_def)
qed

text \<open>
  C2. The batches sent to the feed partition the symbol set: concatenated they are the
  distinct symbols in the order of first occurrence. \<^verbatim>\<open>main.py\<close> removes the
  duplicates before it cuts the batches; \<^verbatim>\<open>papertrader_updater.py\<close> cuts the list
  as read, so a ticker listed twice is requested twice, here in two batches.
\<close>

theorem updater_batches_repeat_symbols:
  "updater_get_tickers [''SYMBOL'', ''AAPL'', ''aapl''] = [''AAPL'', ''AAPL''] \<and>
   symbol_set [''AAPL'', ''AAPL''] = [''AAPL''] \<and>
   batches_of 1 [''AAPL'', ''AAPL''] = Inr [[''AAPL'']] \<and>
   updater_batches_of 1 [''AAPL'', ''AAPL''] = Inr [[''AAPL''], [''AAPL'']] \<and>
   updater_batches_of 150 [''AAPL'', ''AAPL''] = Inr [[''AAPL'', ''AAPL'']]"
  by code_simp

text \<open>
  C6. Planning the batches of a non-empty symbol list fails with \<^verbatim>\<open>ValueError\<close> when
  the chunk size is 0: the error leaves the fetch, is caught at the end of the cycle, and
  the cycle writes nothing. A negative chunk size raises nothing: no batch is planned.
\<close>

theorem zero_chunk_size_fails:
  "(symbols \<noteq> [] \<longrightarrow>
      batches_of 0 symbols = Inl ValueError \<and>
      updater_batches_of 0 symbols = Inl ValueError \<and>
      fetch_latest_prices 0 symbols client = Inl ValueError \<and>
      updater_fetch_latest_prices 0 symbols client = Inl ValueError) \<and>
   (get_rows_and_symbols col_a \<noteq> [] \<longrightarrow>
      cycle_calls 0 client col_a = Inl ValueError) \<and>
   (updater_get_tickers col_a \<noteq> [] \<longrightarrow>
      updater_cycle_calls 0 client ts col_a = Inl ValueError) \<and>
   main_cycle 0 client ws = ws \<and>
   updater_cycle 0 client ts ws = ws \<and>
   (n < 0 \<longrightarrow> batches_of n symbols = Inr [] \<and> updater_batches_of n symbols = Inr [])"
  by (simp add: batches_of_def updater_batches_of_def chunks_zero chunks_negative
      fetch_latest_prices_def updater_fetch_latest_prices_def cycle_calls_def
      updater_cycle_calls_def main_cycle_def updater_cycle_def calls_of_def Let_def)

theorem zero_chunk_size_fails_witness:
  "batches_of 0 [''AAPL''] = Inl ValueError \<and>
   fetch_latest_prices 0 [''AAPL''] steady_feed = Inl ValueError \<and>
   cycle_calls 0 steady_feed scenario_column = Inl ValueError \<and>
   updater_cycle_calls 0 steady_feed ''12:00'' scenario_column = Inl ValueError \<and>
   batches_of (- 1) [''AAPL''] = Inr []"
proof -
  have "[''AAPL''] \<noteq> ([] :: symbol list)" "(- 1 :: int) < 0"
    by simp_all
  moreover have "get_rows_and_symbols scenario_column \<noteq> []" "updater_get_tickers scenario_column \<noteq> []"
    by (simp_all add: scenario_rows scenario_tickers)
  ultimately show ?thesis
    using zero_chunk_size_fails [of "[''AAPL'']" steady_feed scenario_column "''12:00''" scenario_sheet "- 1"]
    by simp
qed

text \<open>
  With the chunk size \<open>- 1\<close> nothing fails: no batch is planned, the price map is
  empty and the row of the only ticker is written blank, where chunk size 1 writes its
  price.
\<close>

theorem negative_chunk_size_blanks_prices:
  "batches_of (- 1) [''AAPL''] = Inr [] \<and>
   cycle_calls (- 1) steady_feed [''SYMBOL'', ''AAPL''] =
     Inr [BatchUpdate [\<lparr>u_range = Cell 3 2, u_values = [[Text []]]\<rparr>]] \<and>
   cycle_calls 1 steady_feed [''SYMBOL'', ''AAPL''] =
     Inr [BatchUpdate [\<lparr>u_range = Cell 3 2, u_values = [[Number 1]]\<rparr>]]"
  by code_simp

section \<open>The price map\<close>

lemma store_items_quotes:
  "store_items prices items = prices ++ map_of (rev (parsed items))"
proof (induction items arbitrary: prices)
  case Nil
  then show ?case by simp
next
  case (Cons item rest)
  obtain s t where item: "item = (s, t)" by (cases item)
  show ?case
  proof (cases "price t")
    case None
    with item Cons show ?thesis by simp
  next
    case (Some p)
    have "store_items prices (item # rest) = prices(s \<mapsto> p) ++ map_of (rev (parsed rest))"
      using item Some Cons by (simp add: fun_upd_def)
    also have "\<dots> = prices ++ map_of (rev (parsed rest) @ [(s, p)])"
      by (rule ext) (simp add: map_add_def split: option.splits)
    also have "rev (parsed rest) @ [(s, p)] = rev (parsed (item # rest))"
      using item Some by simp
    finally show ?thesis .
  qed
qed

lemma fetch_loop_quotes:
  "fetch_loop client k prices batches = prices ++ map_of (rev (quotes client k batches))"
proof (induction batches arbitrary: k prices)
  case Nil
  then show ?case by simp
next
  case (Cons batch rest)
  show ?case
  proof (cases "client k batch")
    case Raises
    with Cons show ?thesis by simp
  next
    case (Returns items)
    with Cons show ?thesis by (simp add: store_items_quotes)
  qed
qed

lemma fetch_loop_append:
  "fetch_loop client k prices (xs @ ys) =
     fetch_loop client (k + length xs) (fetch_loop client k prices xs) ys"
  by (induction xs arbitrary: k prices) (auto split: response.splits)

lemma quotes_append:
  "quotes client k (xs @ ys) = quotes client k xs @ quotes client (k + length xs) ys"
  by (induction xs arbitrary: k) auto

lemma parsed_mem: "(s, p) \<in> set (parsed items) \<longleftrightarrow> (s, Trade (Some p)) \<in> set items"
proof (induction items)
  case Nil
  then show ?case by simp
next
  case (Cons item rest)
  obtain s' t where item: "item = (s', t)" by (cases item)
  obtain po where t: "t = Trade po" by (cases t)
  from Cons item t show ?case by (cases po) auto
qed

lemma quotes_sound:
  "(s, p) \<in> set (quotes client k batches) \<Longrightarrow>
     \<exists>j items. j < length batches \<and> client (k + j) (batches ! j) = Returns items \<and>
        (s, Trade (Some p)) \<in> set items"
proof (induction batches arbitrary: k)
  case Nil
  then show ?case by simp
next
  case (Cons batch rest)
  from Cons.prems consider
    (head) items where "client k batch = Returns items" "(s, p) \<in> set (parsed items)"
    | (tail) "(s, p) \<in> set (quotes client (Suc k) rest)"
    by (cases "client k batch") auto
  then show ?case
  proof cases
    case head
    then have "0 < length (batch # rest) \<and> client (k + 0) ((batch # rest) ! 0) = Returns items \<and>
        (s, Trade (Some p)) \<in> set items"
      by (simp add: parsed_mem)
    then show ?thesis by blast
  next
    case tail
    from Cons.IH [OF tail] obtain j items where
      "j < length rest" "client (Suc k + j) (rest ! j) = Returns items"
      "(s, Trade (Some p)) \<in> set items"
      by blast
    then have "Suc j < length (batch # rest) \<and>
        client (k + Suc j) ((batch # rest) ! Suc j) = Returns items \<and>
        (s, Trade (Some p)) \<in> set items"
      by simp
    then show ?thesis by blast
  qed
qed

lemma quotes_complete:
  "j < length batches \<Longrightarrow> client (k + j) (batches ! j) = Returns items \<Longrightarrow>
     (s, Trade (Some p)) \<in> set items \<Longrightarrow> (s, p) \<in> set (quotes client k batches)"
proof (induction batches arbitrary: k j)
  case Nil
  then show ?case by simp
next
  case (Cons batch rest)
  show ?case
  proof (cases j)
    case 0
    with Cons.prems show ?thesis by (simp add: parsed_mem)
  next
    case (Suc j')
    with Cons.prems Cons.IH [of j' "Suc k"] show ?thesis by simp
  qed
qed

lemma map_of_rev_agree:
  assumes "(s, p) \<in> set qs" and "\<forall>q. (s, q) \<in> set qs \<longrightarrow> q = p"
  shows "map_of (rev qs) s = Some p"
proof -
  from assms(1) have "s \<in> fst ` set (rev qs)" by force
  then obtain q where q: "map_of (rev qs) s = Some q"
    by (meson domD dom_map_of_conv_image_fst domI  map_of_eq_None_iff not_None_eq)
  then have "(s, q) \<in> set qs"
    using map_of_SomeD by fastforce
  with assms(2) q show ?thesis by simp
qed

lemma chunks_subset:
  assumes "chunks seq sz = Inr bs" and "b \<in> set bs"
  shows "set b \<subseteq> set seq"
proof -
  from assms obtain i where "b = take (nat sz) (drop i seq)"
    by (auto simp: chunks_def split: sum.splits)
  then show ?thesis
    by (metis set_drop_subset set_take_subset subset_trans)
qed

section \<open>Writes\<close>

lemma assign_append: "assign g (xs @ ys) = assign (assign g xs) ys"
  by (induction xs arbitrary: g) auto

lemma assign_apply:
  "assign g asg a = (case map_of (rev asg) a of Some v \<Rightarrow> v | None \<Rightarrow> g a)"
proof (induction asg arbitrary: g)
  case Nil
  then show ?case by simp
next
  case (Cons x rest)
  obtain b v where x: "x = (b, v)" by (cases x)
  show ?case
    by (simp add: x Cons map_add_def split: option.splits)
qed

lemma assign_frame: "a \<notin> fst ` set asg \<Longrightarrow> assign g asg a = g a"
proof -
  assume "a \<notin> fst ` set asg"
  then have "map_of (rev asg) a = None"
    by (simp add: map_of_eq_None_iff)
  then show ?thesis by (simp add: assign_apply)
qed

lemma assign_twice: "assign (assign g asg) asg = assign g asg"
  by (rule ext) (simp add: assign_apply split: option.splits)

lemma foldl_perform:
  "foldl perform ws calls = ws\<lparr>cells := assign (cells ws) (concat (map assignments calls))\<rparr>"
  by (induction calls arbitrary: ws) (auto simp: perform_def assign_append)

lemma row_assignments_col:
  "(a, v) \<in> set (row_assignments c r vs) \<Longrightarrow> c \<le> fst a \<and> fst a < c + length vs \<and> snd a = r"
  by (induction vs arbitrary: c) fastforce+

lemma rows_assignments_single:
  "rows_assignments c r (map (\<lambda>x. [f x]) xs) =
     map (\<lambda>(i, x). ((c, r + i), f x)) (zip [0 ..< length xs] xs)"
proof (induction xs arbitrary: r)
  case Nil
  then show ?case by simp
next
  case (Cons x xs)
  have "zip [0 ..< length (x # xs)] (x # xs) = (0, x) # zip (map Suc [0 ..< length xs]) xs"
    by (simp add: upt_conv_Cons map_Suc_upt del: upt_Suc)
  then show ?case
    by (simp add: Cons zip_map1 split_def)
qed

lemma build_updates_length: "length (build_updates rows pm) = length rows"
  by (simp add: build_updates_def)

lemma build_updates_nth:
  "i < length rows \<Longrightarrow>
     build_updates rows pm ! i =
       \<lparr>u_range = Cell 3 (fst (rows ! i)), u_values = [[price_cell pm (snd (rows ! i))]]\<rparr>"
  by (simp add: build_updates_def split_def)

lemma build_updates_ranges:
  "map u_range (build_updates rows pm) = map (\<lambda>(r, s). Cell 3 r) rows"
  by (simp add: build_updates_def split_def)

lemma build_updates_assignments:
  "assignments (BatchUpdate (build_updates rows pm)) =
     map (\<lambda>(r, s). ((3, r), price_cell pm s)) rows"
  by (induction rows) (auto simp: build_updates_def range_assignments_def)

lemma write_prices_exact_rows_calls:
  "write_prices_exact_rows rows pm = (if rows = [] then [] else [BatchUpdate (build_updates rows pm)])"
  by (simp add: write_prices_exact_rows_def build_updates_def)

lemma exact_rows_cells_written:
  "call \<in> set (write_prices_exact_rows rows pm) \<Longrightarrow>
     cells_written call = map (\<lambda>(r, s). (3, r)) rows"
proof -
  assume call: "call \<in> set (write_prices_exact_rows rows pm)"
  have "cells_written (BatchUpdate (build_updates rows pm)) = map (\<lambda>(r, s). (3, r)) rows"
    unfolding cells_written_def build_updates_assignments by (simp add: split_def)
  with call show ?thesis
    by (simp add: write_prices_exact_rows_calls split: if_splits)
qed

lemma column_assignments:
  "range_assignments (Span c 2 c' n) (map (\<lambda>x. [f x]) xs) =
     map (\<lambda>(i, x). ((c, 2 + i), f x)) (zip [0 ..< length xs] xs)"
  by (simp add: range_assignments_def rows_assignments_single)

lemma updater_write_prices_calls:
  "updater_write_prices ts symbols pm =
     (if symbols = [] then []
      else [Update (Span 2 2 2 (length symbols + 1)) (map (\<lambda>s. [Text ts]) symbols),
            Update (Span 3 2 3 (length symbols + 1)) (map (\<lambda>s. [price_cell pm s]) symbols)])"
  by (simp add: updater_write_prices_def)

lemma updater_cells_written:
  "call \<in> set (updater_write_prices ts symbols pm) \<Longrightarrow>
     cells_written call = map (\<lambda>i. (2, 2 + i)) [0 ..< length symbols] \<or>
     cells_written call = map (\<lambda>i. (3, 2 + i)) [0 ..< length symbols]"
proof -
  have "map fst (map (\<lambda>(i, x). ((c, 2 + i), f x)) (zip [0 ..< length xs] xs)) =
        map (\<lambda>i. (c, 2 + i)) [0 ..< length xs]" for c :: nat and f :: "symbol \<Rightarrow> cell_value" and xs
    by (induction xs rule: rev_induct) (simp_all add: split_def)
  then show "call \<in> set (updater_write_prices ts symbols pm) \<Longrightarrow> ?thesis"
    by (auto simp: updater_write_prices_calls cells_written_def column_assignments
        split: if_splits)
qed

lemma perform_frame:
  "a \<notin> set (cells_written call) \<Longrightarrow> cells (perform ws call) a = cells ws a"
  by (simp add: perform_def cells_written_def assign_frame)

lemma perform_keeps_layout:
  "row_count (perform ws call) = row_count ws \<and> number_format (perform ws call) = number_format ws"
  by (simp add: perform_def)

lemma foldl_perform_frame:
  "\<forall>call \<in> set calls. a \<notin> set (cells_written call) \<Longrightarrow>
     cells (foldl perform ws calls) a = cells ws a"
  by (induction calls arbitrary: ws) (simp_all add: perform_frame)

lemma foldl_perform_keeps_layout:
  "row_count (foldl perform ws calls) = row_count ws \<and>
   number_format (foldl perform ws calls) = number_format ws"
  by (simp add: foldl_perform)

lemma col_values_cong:
  assumes "row_count ws' = row_count ws" and "number_format ws' = number_format ws"
    and "\<And>r. cells ws' (c, r) = cells ws (c, r)"
  shows "col_values ws' c = col_values ws c"
proof -
  have "(\<lambda>r. display ws' (cells ws' (c, r))) = (\<lambda>r. display ws (cells ws (c, r)))"
    by (rule ext) (simp add: display_def assms(2,3) split: cell_value.splits)
  then show ?thesis
    by (simp only: col_values_def assms(1))
qed

lemma cycle_calls_cases:
  "cycle_calls n client col_a = Inr [] \<or>
   (\<exists>e. cycle_calls n client col_a = Inl e) \<or>
   (\<exists>pm. get_rows_and_symbols col_a \<noteq> [] \<and>
      fetch_latest_prices n (map snd (get_rows_and_symbols col_a)) client = Inr pm \<and>
      cycle_calls n client col_a = Inr (write_prices_exact_rows (get_rows_and_symbols col_a) pm))"
  by (auto simp: cycle_calls_def Let_def split: sum.splits)

lemma updater_cycle_calls_cases:
  "updater_cycle_calls n client ts col_a = Inr [] \<or>
   (\<exists>e. updater_cycle_calls n client ts col_a = Inl e) \<or>
   (\<exists>pm. updater_get_tickers col_a \<noteq> [] \<and>
      updater_fetch_latest_prices n (updater_get_tickers col_a) client = Inr pm \<and>
      updater_cycle_calls n client ts col_a =
        Inr (updater_write_prices ts (updater_get_tickers col_a) pm))"
  by (auto simp: updater_cycle_calls_def Let_def split: sum.splits)

lemma cycle_calls_column:
  assumes "call \<in> set (calls_of (cycle_calls n client col_a))" and "a \<in> set (cells_written call)"
  shows "fst a = 3"
  using cycle_calls_cases [of n client col_a] assms
  by (auto simp: calls_of_def dest!: exact_rows_cells_written)

lemma updater_cycle_calls_column:
  assumes "call \<in> set (calls_of (updater_cycle_calls n client ts col_a))"
    and "a \<in> set (cells_written call)"
  shows "fst a = 2 \<or> fst a = 3"
  using updater_cycle_calls_cases [of n client ts col_a] assms
  by (auto simp: calls_of_def dest!: updater_cells_written)

lemma main_cycle_frame: "c \<noteq> 3 \<Longrightarrow> cells (main_cycle n client ws) (c, r) = cells ws (c, r)"
  unfolding main_cycle_def
  by (rule foldl_perform_frame) (auto dest: cycle_calls_column)

lemma updater_cycle_frame:
  "c \<noteq> 2 \<Longrightarrow> c \<noteq> 3 \<Longrightarrow> cells (updater_cycle n client ts ws) (c, r) = cells ws (c, r)"
  unfolding updater_cycle_def
  by (rule foldl_perform_frame) (auto dest: updater_cycle_calls_column)

text \<open>
  C5. One update is built per pair of row and symbol, in order; its value is the price
  when the price map has the symbol and the empty text otherwise, so two rows with the
  same priced symbol receive the same price. The variant builds its price column the
  same way, one value per listed symbol.
\<close>

theorem one_update_per_ticker_row:
  "length (build_updates rows pm) = length rows \<and>
   (\<forall>i. i < length rows \<longrightarrow>
      build_updates rows pm ! i =
        \<lparr>u_range = Cell 3 (fst (rows ! i)),
         u_values = [[case pm (snd (rows ! i)) of Some p \<Rightarrow> Number p | None \<Rightarrow> Text []]]\<rparr>) \<and>
   (\<forall>i j p. i < length rows \<and> j < length rows \<and> snd (rows ! i) = snd (rows ! j) \<and>
      pm (snd (rows ! i)) = Some p \<longrightarrow>
      u_values (build_updates rows pm ! i) = [[Number p]] \<and>
      u_values (build_updates rows pm ! j) = [[Number p]]) \<and>
   (rows \<noteq> [] \<longrightarrow> write_prices_exact_rows rows pm = [BatchUpdate (build_updates rows pm)]) \<and>
   (symbols \<noteq> [] \<longrightarrow>
      updater_write_prices ts symbols pm =
        [Update (Span 2 2 2 (length symbols + 1)) (map (\<lambda>s. [Text ts]) symbols),
         Update (Span 3 2 3 (length symbols + 1))
           (map (\<lambda>s. [case pm s of Some p \<Rightarrow> Number p | None \<Rightarrow> Text []]) symbols)])"
  by (auto simp: build_updates_length build_updates_nth write_prices_exact_rows_calls
      updater_write_prices_calls price_cell_def)

theorem one_update_per_ticker_row_witness:
  "length (build_updates [(2, ''AAPL''), (4, ''AAPL''), (5, ''SPY'')] [''AAPL'' \<mapsto> 172.34]) = 3 \<and>
   build_updates [(2, ''AAPL''), (4, ''AAPL''), (5, ''SPY'')] [''AAPL'' \<mapsto> 172.34] ! 0 =
     \<lparr>u_range = Cell 3 2, u_values = [[Number 172.34]]\<rparr> \<and>
   build_updates [(2, ''AAPL''), (4, ''AAPL''), (5, ''SPY'')] [''AAPL'' \<mapsto> 172.34] ! 1 =
     \<lparr>u_range = Cell 3 4, u_values = [[Number 172.34]]\<rparr> \<and>
   build_updates [(2, ''AAPL''), (4, ''AAPL''), (5, ''SPY'')] [''AAPL'' \<mapsto> 172.34] ! 2 =
     \<lparr>u_range = Cell 3 5, u_values = [[Text []]]\<rparr> \<and>
   write_prices_exact_rows [(2, ''AAPL''), (4, ''AAPL''), (5, ''SPY'')] [''AAPL'' \<mapsto> 172.34] =
     [BatchUpdate (build_updates [(2, ''AAPL''), (4, ''AAPL''), (5, ''SPY'')] [''AAPL'' \<mapsto> 172.34])] \<and>
   updater_write_prices ''12:00'' [''AAPL'', ''SPY''] [''AAPL'' \<mapsto> 172.34] =
     [Update (Span 2 2 2 3) [[Text ''12:00''], [Text ''12:00'']],
      Update (Span 3 2 3 3) [[Number 172.34], [Text []]]]"
proof -
  let ?rows = "[(2::nat, ''AAPL''), (4, ''AAPL''), (5, ''SPY'')]"
  let ?pm = "[''AAPL'' \<mapsto> 172.34::real]"
  note t = one_update_per_ticker_row [of ?rows ?pm "[''AAPL'', ''SPY'']" "''12:00''"]
  from t have nth: "\<And>i. i < 3 \<Longrightarrow> build_updates ?rows ?pm ! i =
        \<lparr>u_range = Cell 3 (fst (?rows ! i)),
         u_values = [[case ?pm (snd (?rows ! i)) of Some p \<Rightarrow> Number p | None \<Rightarrow> Text []]]\<rparr>"
    by simp
  from t nth [of 0] nth [of 1] nth [of 2] show ?thesis
    by simp
qed

lemma exact_rows_fidelity:
  "call \<in> set (calls_of (cycle_calls n client col_a)) \<Longrightarrow>
     cells_written call = map (\<lambda>(r, s). (3, r)) (get_rows_and_symbols col_a)"
  using cycle_calls_cases [of n client col_a]
  by (auto simp: calls_of_def dest: exact_rows_cells_written)

lemma main_cycle_writes_own_row:
  assumes rows: "(r, s) \<in> set (get_rows_and_symbols (col_values ws 1))"
    and fetch: "fetch_latest_prices n (map snd (get_rows_and_symbols (col_values ws 1))) client = Inr pm"
  shows "cells (main_cycle n client ws) (3, r) = price_cell pm s"
proof -
  let ?rows = "get_rows_and_symbols (col_values ws 1)"
  let ?asg = "map (\<lambda>(r, s). ((3::nat, r), price_cell pm s)) ?rows"
  from rows fetch have "cycle_calls n client (col_values ws 1) = Inr [BatchUpdate (build_updates ?rows pm)]"
    by (auto simp: cycle_calls_def Let_def write_prices_exact_rows_calls)
  then have cells: "cells (main_cycle n client ws) = assign (cells ws) ?asg"
    by (simp add: main_cycle_def calls_of_def perform_def build_updates_assignments
        del: assignments.simps)
  have "map fst ?asg = map (\<lambda>r. (3, r)) (map fst ?rows)"
    by (simp add: split_def)
  then have "distinct (map fst ?asg)"
    using get_rows_and_symbols_sorted [of "col_values ws 1"]
    by (simp add: strict_sorted_iff distinct_map inj_on_def del: map_map)
  then have dist: "distinct (map fst (rev ?asg))"
    by (simp only: rev_map [symmetric] distinct_rev)
  from rows have "((3, r), price_cell pm s) \<in> set (rev ?asg)"
    by force
  with dist have "map_of (rev ?asg) (3, r) = Some (price_cell pm s)"
    by (rule map_of_is_SomeI)
  with cells show ?thesis
    by (simp add: assign_apply)
qed

text \<open>
  C7. The calls of a cycle assign cells of column C only (columns B and C in the variant
  that stamps the time), so every cell of another column keeps its content; for an empty
  list of rows no call is made.
\<close>

theorem writes_touch_only_price_column:
  "(\<forall>call \<in> set (write_prices_exact_rows rows pm). \<forall>a \<in> set (cells_written call). fst a = 3) \<and>
   (\<forall>call \<in> set (updater_write_prices ts symbols pm).
      \<forall>a \<in> set (cells_written call). fst a = 2 \<or> fst a = 3) \<and>
   (\<forall>c r. c \<noteq> 3 \<longrightarrow>
      cells (foldl perform ws (write_prices_exact_rows rows pm)) (c, r) = cells ws (c, r)) \<and>
   (\<forall>c r. c \<noteq> 2 \<and> c \<noteq> 3 \<longrightarrow>
      cells (foldl perform ws (updater_write_prices ts symbols pm)) (c, r) = cells ws (c, r)) \<and>
   (\<forall>c r. c \<noteq> 3 \<longrightarrow> cells (main_cycle n client ws) (c, r) = cells ws (c, r)) \<and>
   (\<forall>c r. c \<noteq> 2 \<and> c \<noteq> 3 \<longrightarrow> cells (updater_cycle n client ts ws) (c, r) = cells ws (c, r)) \<and>
   write_prices_exact_rows [] pm = [] \<and>
   updater_write_prices ts [] pm = [] \<and>
   (get_rows_and_symbols col_a = [] \<longrightarrow> cycle_calls n client col_a = Inr []) \<and>
   (updater_get_tickers col_a = [] \<longrightarrow> updater_cycle_calls n client ts col_a = Inr [])"
proof -
  have c3: "fst a = 3"
    if "call \<in> set (write_prices_exact_rows rows pm)" "a \<in> set (cells_written call)" for call a
    using that by (auto dest!: exact_rows_cells_written)
  have c23: "fst a = 2 \<or> fst a = 3"
    if "call \<in> set (updater_write_prices ts symbols pm)" "a \<in> set (cells_written call)" for call a
    using that by (auto dest!: updater_cells_written)
  have p1: "\<forall>call \<in> set (write_prices_exact_rows rows pm). \<forall>a \<in> set (cells_written call). fst a = 3"
    using c3 by blast
  have p2: "\<forall>call \<in> set (updater_write_prices ts symbols pm).
      \<forall>a \<in> set (cells_written call). fst a = 2 \<or> fst a = 3"
    using c23 by blast
  have p3: "\<forall>c r. c \<noteq> 3 \<longrightarrow>
      cells (foldl perform ws (write_prices_exact_rows rows pm)) (c, r) = cells ws (c, r)"
    by (intro allI impI foldl_perform_frame) (auto dest: c3)
  have p4: "\<forall>c r. c \<noteq> 2 \<and> c \<noteq> 3 \<longrightarrow>
      cells (foldl perform ws (updater_write_prices ts symbols pm)) (c, r) = cells ws (c, r)"
    by (intro allI impI foldl_perform_frame) (auto dest: c23)
  have p5: "\<forall>c r. c \<noteq> 3 \<longrightarrow> cells (main_cycle n client ws) (c, r) = cells ws (c, r)"
    by (simp add: main_cycle_frame)
  have p6: "\<forall>c r. c \<noteq> 2 \<and> c \<noteq> 3 \<longrightarrow>
      cells (updater_cycle n client ts ws) (c, r) = cells ws (c, r)"
    by (simp add: updater_cycle_frame)
  have p7: "write_prices_exact_rows [] pm = []" and p8: "updater_write_prices ts [] pm = []"
    by (simp_all add: write_prices_exact_rows_def updater_write_prices_def)
  have p9: "get_rows_and_symbols col_a = [] \<longrightarrow> cycle_calls n client col_a = Inr []"
    and p10: "updater_get_tickers col_a = [] \<longrightarrow> updater_cycle_calls n client ts col_a = Inr []"
    by (simp_all add: cycle_calls_def updater_cycle_calls_def)
  show ?thesis
    by (intro conjI p1 p2 p3 p4 p5 p6 p7 p8 p9 p10)
qed

theorem writes_touch_only_price_column_witness:
  "cells (main_cycle 1 scenario_feed scenario_sheet) (1, 4) = Text ''aapl'' \<and>
   cells (updater_cycle 1 scenario_feed ''12:00'' scenario_sheet) (1, 4) = Text ''aapl'' \<and>
   cells (main_cycle 1 scenario_feed scenario_sheet) (3, 4) = Number 172.34 \<and>
   cycle_calls 1 scenario_feed [''SYMBOL''] = Inr [] \<and>
   updater_cycle_calls 1 scenario_feed ''12:00'' [''SYMBOL''] = Inr [] \<and>
   cells_written (BatchUpdate (build_updates [(2, ''AAPL''), (4, ''AAPL'')] Map.empty)) = [(3, 2), (3, 4)]"
proof -
  note t = writes_touch_only_price_column
    [of "[(2, ''AAPL''), (4, ''AAPL'')]" Map.empty "''12:00''" "[]" scenario_sheet 1 scenario_feed
      "[''SYMBOL'']"]
  have "(1::nat) \<noteq> 3" "(1::nat) \<noteq> 2 \<and> (1::nat) \<noteq> 3"
    by simp_all
  with t have "cells (main_cycle 1 scenario_feed scenario_sheet) (1, 4) = cells scenario_sheet (1, 4)"
    and "cells (updater_cycle 1 scenario_feed ''12:00'' scenario_sheet) (1, 4) = cells scenario_sheet (1, 4)"
    by blast+
  moreover have "cells scenario_sheet (1, 4) = Text ''aapl''"
    by (simp add: scenario_sheet_def)
  moreover have "get_rows_and_symbols [''SYMBOL''] = []" "updater_get_tickers [''SYMBOL''] = []"
    by (simp_all add: get_rows_and_symbols_def updater_get_tickers_def)
  with t have "cycle_calls 1 scenario_feed [''SYMBOL''] = Inr []"
    "updater_cycle_calls 1 scenario_feed ''12:00'' [''SYMBOL''] = Inr []"
    by blast+
  moreover have "cells (main_cycle 1 scenario_feed scenario_sheet) (3, 4) = Number 172.34"
    by code_simp
  moreover have "cells_written (BatchUpdate (build_updates [(2, ''AAPL''), (4, ''AAPL'')] Map.empty)) =
      [(3, 2), (3, 4)]"
    by code_simp
  ultimately show ?thesis by simp
qed

text \<open>
  C1. Each price is written to the row its ticker was read from. \<^verbatim>\<open>main.py\<close> does so;
  the variant \<^verbatim>\<open>papertrader_updater.py\<close> drops the blank rows when it reads the
  column and writes the prices to consecutive rows from row 2: on the scenario's column,
  whose tickers stand in rows 2, 4 and 5, it writes rows 2, 3 and 4.
\<close>

theorem updater_compacts_rows:
  "map fst (get_rows_and_symbols scenario_column) = [2, 4, 5] \<and>
   map cells_written (calls_of (cycle_calls 1 scenario_feed scenario_column)) =
     [[(3, 2), (3, 4), (3, 5)]] \<and>
   updater_cycle_calls 1 scenario_feed ''12:00'' scenario_column =
     Inr [Update (Span 2 2 2 4) [[Text ''12:00''], [Text ''12:00''], [Text ''12:00'']],
          Update (Span 3 2 3 4) [[Number 172.34], [Number 172.34], [Text []]]] \<and>
   map cells_written (calls_of (updater_cycle_calls 1 scenario_feed ''12:00'' scenario_column)) =
     [[(2, 2), (2, 3), (2, 4)], [(3, 2), (3, 3), (3, 4)]]"
  by code_simp

section \<open>Failing requests and the keys of the price map\<close>

lemma fetch_loop_skips:
  assumes "i < length batches" and "client (k + i) (batches ! i) = Raises"
  shows "fetch_loop client k prices batches =
     fetch_loop client (Suc (k + i)) (fetch_loop client k prices (take i batches))
       (drop (Suc i) batches)"
proof -
  from assms(1) have split: "batches = take i batches @ (batches ! i) # drop (Suc i) batches"
    by (simp add: id_take_nth_drop)
  from assms(1) have len: "length (take i batches) = i"
    by simp
  have "fetch_loop client k prices (take i batches @ (batches ! i) # drop (Suc i) batches) =
     fetch_loop client (Suc (k + i)) (fetch_loop client k prices (take i batches))
       (drop (Suc i) batches)"
    by (simp only: fetch_loop_append len fetch_loop.simps assms(2) response.case)
  with split show ?thesis by simp
qed

lemma quotes_skips:
  assumes "i < length batches" and "client (k + i) (batches ! i) = Raises"
  shows "quotes client k batches =
     quotes client k (take i batches) @ quotes client (Suc (k + i)) (drop (Suc i) batches)"
proof -
  from assms(1) have split: "batches = take i batches @ (batches ! i) # drop (Suc i) batches"
    by (simp add: id_take_nth_drop)
  from assms(1) have len: "length (take i batches) = i"
    by simp
  have "quotes client k (take i batches @ (batches ! i) # drop (Suc i) batches) =
     quotes client k (take i batches) @ quotes client (Suc (k + i)) (drop (Suc i) batches)"
    by (simp only: quotes_append len quotes.simps assms(2) response.case append_Nil)
  with split show ?thesis by simp
qed

lemma fetch_loop_absent:
  "s \<notin> fst ` set (quotes client k batches) \<Longrightarrow> fetch_loop client k Map.empty batches s = None"
  by (simp add: fetch_loop_quotes map_of_eq_None_iff)

lemma fetch_loop_present:
  assumes "(s, p) \<in> set (quotes client k batches)"
    and "\<forall>q. (s, q) \<in> set (quotes client k batches) \<longrightarrow> q = p"
  shows "fetch_loop client k Map.empty batches s = Some p"
  using map_of_rev_agree [OF assms] by (simp add: fetch_loop_quotes)

lemma fetch_loop_dom:
  "dom (fetch_loop client k Map.empty batches) = fst ` set (quotes client k batches)"
  by (simp add: fetch_loop_quotes dom_map_of_conv_image_fst)

lemma faithful_quotes:
  assumes "\<forall>k batch items. client k batch = Returns items \<longrightarrow> fst ` set items \<subseteq> set batch"
    and "(s, p) \<in> set (quotes client k batches)"
  shows "\<exists>j. j < length batches \<and> client (k + j) (batches ! j) \<noteq> Raises \<and> s \<in> set (batches ! j)"
proof -
  from quotes_sound [OF assms(2)] obtain j items where j: "j < length batches"
    and r: "client (k + j) (batches ! j) = Returns items" and m: "(s, Trade (Some p)) \<in> set items"
    by blast
  from assms(1) r have "fst ` set items \<subseteq> set (batches ! j)"
    by blast
  with m have "s \<in> set (batches ! j)" by force
  with j r show ?thesis by auto
qed

lemma fetch_latest_prices_loop:
  "fetch_latest_prices n symbols client = Inr pm \<Longrightarrow>
     \<exists>batches. (\<forall>b \<in> set batches. set b \<subseteq> set symbols) \<and>
       pm = fetch_loop client 0 Map.empty batches"
proof (cases "symbols = []")
  case True
  assume "fetch_latest_prices n symbols client = Inr pm"
  with True have "pm = fetch_loop client 0 Map.empty []"
    by (simp add: fetch_latest_prices_def)
  then show ?thesis by (intro exI [of _ "[]"]) simp
next
  case False
  assume "fetch_latest_prices n symbols client = Inr pm"
  with False obtain batches where b: "chunks (dict_fromkeys symbols) n = Inr batches"
    and pm: "pm = fetch_loop client 0 Map.empty batches"
    by (auto simp: fetch_latest_prices_def batches_of_def split: sum.splits)
  have "set b \<subseteq> set symbols" if "b \<in> set batches" for b
    using chunks_subset [OF b that] by (simp add: dict_fromkeys_symbol_set set_symbol_set)
  with pm show ?thesis by blast
qed

lemma updater_fetch_latest_prices_loop:
  "updater_fetch_latest_prices n symbols client = Inr pm \<Longrightarrow>
     \<exists>batches. (\<forall>b \<in> set batches. set b \<subseteq> set symbols) \<and>
       pm = fetch_loop client 0 Map.empty batches"
proof (cases "symbols = []")
  case True
  assume "updater_fetch_latest_prices n symbols client = Inr pm"
  with True have "pm = fetch_loop client 0 Map.empty []"
    by (simp add: updater_fetch_latest_prices_def)
  then show ?thesis by (intro exI [of _ "[]"]) simp
next
  case False
  assume "updater_fetch_latest_prices n symbols client = Inr pm"
  with False obtain batches where b: "chunks symbols n = Inr batches"
    and pm: "pm = fetch_loop client 0 Map.empty batches"
    by (auto simp: updater_fetch_latest_prices_def updater_batches_of_def split: sum.splits)
  have "set b \<subseteq> set symbols" if "b \<in> set batches" for b
    using chunks_subset [OF b that] .
  with pm show ?thesis by blast
qed

lemma chunks_returns: "n \<noteq> 0 \<Longrightarrow> \<exists>bs. chunks seq n = Inr bs"
  by (simp add: chunks_def py_range0_def)

lemma fetch_returns:
  assumes "n \<noteq> 0"
  shows "\<exists>pm. fetch_latest_prices n symbols client = Inr pm"
proof -
  from chunks_returns [OF assms] obtain bs where "chunks (dict_fromkeys symbols) n = Inr bs"
    by blast
  then show ?thesis
    by (simp add: fetch_latest_prices_def batches_of_def)
qed

lemma updater_fetch_returns:
  assumes "n \<noteq> 0"
  shows "\<exists>pm. updater_fetch_latest_prices n symbols client = Inr pm"
proof -
  from chunks_returns [OF assms] obtain bs where "chunks symbols n = Inr bs"
    by blast
  then show ?thesis
    by (simp add: updater_fetch_latest_prices_def updater_batches_of_def)
qed

lemma failing_request_adds_nothing:
  assumes "i < length batches" and "client i (batches ! i) = Raises"
  shows "fetch_loop client 0 Map.empty batches =
           fetch_loop client (Suc i) (fetch_loop client 0 Map.empty (take i batches))
             (drop (Suc i) batches)"
    and "quotes client 0 batches =
           quotes client 0 (take i batches) @ quotes client (Suc i) (drop (Suc i) batches)"
  using fetch_loop_skips [of i batches client 0 Map.empty] quotes_skips [of i batches client 0] assms
  by simp_all

lemma consistent_quote_is_stored:
  assumes j: "j < length batches" and r: "client j (batches ! j) = Returns items"
    and m: "(s, Trade (Some p)) \<in> set items"
    and same: "\<forall>q. (s, q) \<in> set (quotes client 0 batches) \<longrightarrow> q = p"
  shows "fetch_loop client 0 Map.empty batches s = Some p"
proof -
  from j r m have "(s, p) \<in> set (quotes client 0 batches)"
    using quotes_complete [of j batches client 0 items s p] by simp
  then show ?thesis
    using same by (rule fetch_loop_present)
qed

lemma failing_batch_absent:
  assumes i: "client i (batches ! i) = Raises"
    and faithful: "\<forall>k batch items. client k batch = Returns items \<longrightarrow> fst ` set items \<subseteq> set batch"
    and disjoint: "\<forall>j. j < length batches \<and> j \<noteq> i \<longrightarrow> set (batches ! j) \<inter> set (batches ! i) = {}"
    and s: "s \<in> set (batches ! i)"
  shows "fetch_loop client 0 Map.empty batches s = None"
proof -
  have "s \<notin> fst ` set (quotes client 0 batches)"
  proof
    assume "s \<in> fst ` set (quotes client 0 batches)"
    then obtain p where "(s, p) \<in> set (quotes client 0 batches)" by force
    from faithful_quotes [OF faithful this] obtain j where j: "j < length batches"
      and ok: "client j (batches ! j) \<noteq> Raises" and mem: "s \<in> set (batches ! j)"
      by auto
    from ok i have "j \<noteq> i" by auto
    with disjoint j have "set (batches ! j) \<inter> set (batches ! i) = {}" by blast
    with mem s show False by blast
  qed
  then show ?thesis by (rule fetch_loop_absent)
qed

text \<open>
  C3. A request that raises is skipped and the loop goes on with the next batch: the
  fetch returns a price map, which holds for each symbol the last price that a
  successful request returned for it. The failing request adds nothing, so a symbol of
  the failing batch is absent unless another request's answer prices it, which cannot
  happen when answers name only the symbols asked for and the batches are disjoint; a
  symbol that the successful answers price with one value appears with that value.
\<close>

theorem failing_batch_is_skipped:
  assumes "i < length batches" and "client i (batches ! i) = Raises"
  shows "fetch_loop client 0 Map.empty batches =
           fetch_loop client (Suc i) (fetch_loop client 0 Map.empty (take i batches))
             (drop (Suc i) batches) \<and>
         quotes client 0 batches =
           quotes client 0 (take i batches) @ quotes client (Suc i) (drop (Suc i) batches) \<and>
         (\<forall>s. fetch_loop client 0 Map.empty batches s = map_of (rev (quotes client 0 batches)) s) \<and>
         (\<forall>s. s \<notin> fst ` set (quotes client 0 batches) \<longrightarrow>
            fetch_loop client 0 Map.empty batches s = None) \<and>
         (\<forall>j items s p. j < length batches \<and> client j (batches ! j) = Returns items \<and>
            (s, Trade (Some p)) \<in> set items \<and>
            (\<forall>q. (s, q) \<in> set (quotes client 0 batches) \<longrightarrow> q = p) \<longrightarrow>
            fetch_loop client 0 Map.empty batches s = Some p) \<and>
         ((\<forall>k batch items. client k batch = Returns items \<longrightarrow> fst ` set items \<subseteq> set batch) \<and>
          (\<forall>j. j < length batches \<and> j \<noteq> i \<longrightarrow> set (batches ! j) \<inter> set (batches ! i) = {}) \<longrightarrow>
            (\<forall>s \<in> set (batches ! i). fetch_loop client 0 Map.empty batches s = None)) \<and>
         (\<forall>n symbols. n \<noteq> 0 \<longrightarrow>
            (\<exists>pm. fetch_latest_prices n symbols client = Inr pm) \<and>
            (\<exists>pm. updater_fetch_latest_prices n symbols client = Inr pm))"
proof (intro conjI)
  show "fetch_loop client 0 Map.empty batches =
           fetch_loop client (Suc i) (fetch_loop client 0 Map.empty (take i batches))
             (drop (Suc i) batches)"
    using assms by (rule failing_request_adds_nothing(1))
  show "quotes client 0 batches =
           quotes client 0 (take i batches) @ quotes client (Suc i) (drop (Suc i) batches)"
    using assms by (rule failing_request_adds_nothing(2))
  show "\<forall>s. fetch_loop client 0 Map.empty batches s = map_of (rev (quotes client 0 batches)) s"
    by (simp add: fetch_loop_quotes)
  show "\<forall>s. s \<notin> fst ` set (quotes client 0 batches) \<longrightarrow>
            fetch_loop client 0 Map.empty batches s = None"
    by (simp add: fetch_loop_absent)
  show "\<forall>j items s p. j < length batches \<and> client j (batches ! j) = Returns items \<and>
            (s, Trade (Some p)) \<in> set items \<and>
            (\<forall>q. (s, q) \<in> set (quotes client 0 batches) \<longrightarrow> q = p) \<longrightarrow>
            fetch_loop client 0 Map.empty batches s = Some p"
    by (intro allI impI, elim conjE) (rule consistent_quote_is_stored)
  show "(\<forall>k batch items. client k batch = Returns items \<longrightarrow> fst ` set items \<subseteq> set batch) \<and>
          (\<forall>j. j < length batches \<and> j \<noteq> i \<longrightarrow> set (batches ! j) \<inter> set (batches ! i) = {}) \<longrightarrow>
            (\<forall>s \<in> set (batches ! i). fetch_loop client 0 Map.empty batches s = None)"
    using assms(2) by (intro impI ballI, elim conjE) (rule failing_batch_absent [of client i batches])
  show "\<forall>n symbols. n \<noteq> 0 \<longrightarrow>
            (\<exists>pm. fetch_latest_prices n symbols client = Inr pm) \<and>
            (\<exists>pm. updater_fetch_latest_prices n symbols client = Inr pm)"
    by (intro allI impI conjI fetch_returns updater_fetch_returns)
qed

theorem failing_batch_is_skipped_witness:
  "scenario_feed 1 ([[''AAPL''], [''SPY'']] ! 1) = Raises \<and>
   quotes scenario_feed 0 [[''AAPL''], [''SPY'']] = [(''AAPL'', 172.34)] \<and>
   fetch_loop scenario_feed 0 Map.empty [[''AAPL''], [''SPY'']] ''SPY'' = None \<and>
   fetch_loop scenario_feed 0 Map.empty [[''AAPL''], [''SPY'']] ''AAPL'' = Some 172.34 \<and>
   fetch_loop scenario_feed 0 Map.empty [[''AAPL''], [''SPY'']] =
     fetch_loop scenario_feed 2 (fetch_loop scenario_feed 0 Map.empty [[''AAPL'']]) []"
proof -
  let ?bs = "[[''AAPL''], [''SPY'']]"
  have h1: "1 < length ?bs" by simp
  have h2: "scenario_feed 1 (?bs ! 1) = Raises"
    by (simp add: scenario_feed_def)
  note t = failing_batch_is_skipped [of 1 ?bs scenario_feed, OF h1 h2]
  have qs: "quotes scenario_feed 0 ?bs = [(''AAPL'', 172.34)]"
    by (simp add: scenario_feed_def)
  have faithful: "\<forall>k batch items. scenario_feed k batch = Returns items \<longrightarrow>
      fst ` set items \<subseteq> set batch"
    by (auto simp: scenario_feed_def split: if_splits)
  have disjoint: "\<forall>j. j < length ?bs \<and> j \<noteq> 1 \<longrightarrow> set (?bs ! j) \<inter> set (?bs ! 1) = {}"
    by (auto simp: less_Suc_eq)
  from t faithful disjoint have "\<forall>s \<in> set (?bs ! 1). fetch_loop scenario_feed 0 Map.empty ?bs s = None"
    by blast
  then have spy: "fetch_loop scenario_feed 0 Map.empty ?bs ''SPY'' = None"
    by simp
  have r0: "0 < length ?bs \<and> scenario_feed 0 (?bs ! 0) = Returns [(''AAPL'', Trade (Some 172.34))] \<and>
      (''AAPL'', Trade (Some 172.34)) \<in> set [(''AAPL'', Trade (Some 172.34))] \<and>
      (\<forall>q. (''AAPL'', q) \<in> set (quotes scenario_feed 0 ?bs) \<longrightarrow> q = 172.34)"
    by (simp add: qs) (simp add: scenario_feed_def)
  from t have "\<forall>j items s p. j < length ?bs \<and> scenario_feed j (?bs ! j) = Returns items \<and>
            (s, Trade (Some p)) \<in> set items \<and>
            (\<forall>q. (s, q) \<in> set (quotes scenario_feed 0 ?bs) \<longrightarrow> q = p) \<longrightarrow>
            fetch_loop scenario_feed 0 Map.empty ?bs s = Some p"
    by (elim conjE)
  with r0 have aapl: "fetch_loop scenario_feed 0 Map.empty ?bs ''AAPL'' = Some 172.34"
    by blast
  from t have "fetch_loop scenario_feed 0 Map.empty ?bs =
     fetch_loop scenario_feed (Suc 1) (fetch_loop scenario_feed 0 Map.empty (take 1 ?bs))
       (drop (Suc 1) ?bs)"
    by (elim conjE)
  then have skip: "fetch_loop scenario_feed 0 Map.empty ?bs =
     fetch_loop scenario_feed 2 (fetch_loop scenario_feed 0 Map.empty [[''AAPL'']]) []"
    by (simp add: numeral_2_eq_2)
  from h2 qs spy aapl skip show ?thesis
    by (intro conjI)
qed

text \<open>
  A symbol of a failing batch that is priced all the same: in the variant, a ticker
  listed twice is asked for twice and the second request succeeds; in \<^verbatim>\<open>main.py\<close>,
  the answer to the request for SPY also names AAPL, whose own request failed.
\<close>

theorem failing_batch_symbol_priced:
  "updater_batches_of 1 [''AAPL'', ''AAPL''] = Inr [[''AAPL''], [''AAPL'']] \<and>
   flaky_feed 0 [''AAPL''] = Raises \<and>
   (case updater_fetch_latest_prices 1 [''AAPL'', ''AAPL''] flaky_feed of
      Inl e \<Rightarrow> False | Inr pm \<Rightarrow> pm ''AAPL'' = Some 1) \<and>
   batches_of 1 [''AAPL'', ''SPY''] = Inr [[''AAPL''], [''SPY'']] \<and>
   broad_feed 0 [''AAPL''] = Raises \<and>
   (case fetch_latest_prices 1 [''AAPL'', ''SPY''] broad_feed of
      Inl e \<Rightarrow> False | Inr pm \<Rightarrow> pm ''AAPL'' = Some 1)"
  by code_simp

lemma chunks_of_nothing: "chunks [] n = Inr bs \<Longrightarrow> bs = []"
  by (auto simp: chunks_def py_range0_def split: if_splits)

lemma planned_batches_fetched:
  "batches_of n symbols = Inr batches \<Longrightarrow>
     fetch_latest_prices n symbols client = Inr (fetch_loop client 0 Map.empty batches)"
  by (cases "symbols = []")
    (auto simp: fetch_latest_prices_def batches_of_def dict_fromkeys_def dest: chunks_of_nothing)

lemma updater_planned_batches_fetched:
  "updater_batches_of n symbols = Inr batches \<Longrightarrow>
     updater_fetch_latest_prices n symbols client = Inr (fetch_loop client 0 Map.empty batches)"
  by (cases "symbols = []")
    (auto simp: updater_fetch_latest_prices_def updater_batches_of_def dest: chunks_of_nothing)

lemma planned_batches_hold_column_symbols:
  assumes "batches_of n symbols = Inr batches \<or> updater_batches_of n symbols = Inr batches"
    and "b \<in> set batches"
  shows "set b \<subseteq> set (symbol_set symbols)"
  using assms chunks_subset [of "dict_fromkeys symbols" n batches b]
    chunks_subset [of symbols n batches b]
  by (auto simp: batches_of_def updater_batches_of_def dict_fromkeys_symbol_set set_symbol_set)

lemma price_map_keys_iff:
  "s \<in> dom (fetch_loop client 0 Map.empty batches) \<longleftrightarrow>
     (\<exists>j items p. j < length batches \<and> client j (batches ! j) = Returns items \<and>
        (s, Trade (Some p)) \<in> set items)"
proof
  assume "s \<in> dom (fetch_loop client 0 Map.empty batches)"
  then obtain p where "(s, p) \<in> set (quotes client 0 batches)"
    by (auto simp: fetch_loop_dom)
  from quotes_sound [OF this] show "\<exists>j items p. j < length batches \<and>
      client j (batches ! j) = Returns items \<and> (s, Trade (Some p)) \<in> set items"
    by auto
next
  assume "\<exists>j items p. j < length batches \<and> client j (batches ! j) = Returns items \<and>
        (s, Trade (Some p)) \<in> set items"
  then obtain j items p where j: "j < length batches"
    and r: "client (0 + j) (batches ! j) = Returns items" and m: "(s, Trade (Some p)) \<in> set items"
    by auto
  from quotes_complete [of j batches client 0 items s p, OF j r m] have "s \<in> fst ` set (quotes client 0 batches)"
    by force
  then show "s \<in> dom (fetch_loop client 0 Map.empty batches)"
    by (simp add: fetch_loop_dom)
qed

lemma faithful_answers_stay_in_column:
  assumes plan: "batches_of n symbols = Inr batches \<or> updater_batches_of n symbols = Inr batches"
    and faithful: "\<forall>j items. j < length batches \<and> client j (batches ! j) = Returns items \<longrightarrow>
        fst ` set items \<subseteq> set (batches ! j)"
  shows "dom (fetch_loop client 0 Map.empty batches) \<subseteq> set (symbol_set symbols)"
proof
  fix s
  assume "s \<in> dom (fetch_loop client 0 Map.empty batches)"
  then obtain j items p where j: "j < length batches"
    and r: "client j (batches ! j) = Returns items" and m: "(s, Trade (Some p)) \<in> set items"
    unfolding price_map_keys_iff by blast
  from faithful j r have "fst ` set items \<subseteq> set (batches ! j)" by blast
  with m have "s \<in> set (batches ! j)" by force
  moreover from j have "batches ! j \<in> set batches" by simp
  ultimately show "s \<in> set (symbol_set symbols)"
    using planned_batches_hold_column_symbols [OF plan] by blast
qed

lemma returned_price_map_is_fetched:
  "fetch_latest_prices n symbols client = Inr pm \<Longrightarrow>
     symbols = [] \<and> pm = Map.empty \<or>
     (\<exists>bs. batches_of n symbols = Inr bs \<and> pm = fetch_loop client 0 Map.empty bs)"
  "updater_fetch_latest_prices n symbols client = Inr pm \<Longrightarrow>
     symbols = [] \<and> pm = Map.empty \<or>
     (\<exists>bs. updater_batches_of n symbols = Inr bs \<and> pm = fetch_loop client 0 Map.empty bs)"
  by (auto simp: fetch_latest_prices_def updater_fetch_latest_prices_def
      split: if_splits sum.splits)

text \<open>
  C9. The price map returned by the fetch is what the loop records over the batches
  planned for the cycle, and every planned batch holds symbols of the symbol set only.
  A symbol is a key of the price map exactly when the answer to one of these requests
  names it with a price that converts, whether it was asked for or not: the answers are
  not filtered. So the keys are among the symbol set whenever each answer names only
  symbols of the batch it answers.
\<close>

theorem price_map_keys_come_from_answers:
  "(batches_of n symbols = Inr batches \<longrightarrow>
      fetch_latest_prices n symbols client = Inr (fetch_loop client 0 Map.empty batches)) \<and>
   (updater_batches_of n symbols = Inr batches \<longrightarrow>
      updater_fetch_latest_prices n symbols client = Inr (fetch_loop client 0 Map.empty batches)) \<and>
   (batches_of n symbols = Inr batches \<or> updater_batches_of n symbols = Inr batches \<longrightarrow>
      (\<forall>b \<in> set batches. set b \<subseteq> set (symbol_set symbols)) \<and>
      (\<forall>s. s \<in> dom (fetch_loop client 0 Map.empty batches) \<longleftrightarrow>
         (\<exists>j items p. j < length batches \<and> client j (batches ! j) = Returns items \<and>
            (s, Trade (Some p)) \<in> set items)) \<and>
      ((\<forall>j items. j < length batches \<and> client j (batches ! j) = Returns items \<longrightarrow>
          fst ` set items \<subseteq> set (batches ! j)) \<longrightarrow>
         dom (fetch_loop client 0 Map.empty batches) \<subseteq> set (symbol_set symbols))) \<and>
   (\<forall>pm. fetch_latest_prices n symbols client = Inr pm \<longrightarrow>
      symbols = [] \<and> pm = Map.empty \<or>
      (\<exists>bs. batches_of n symbols = Inr bs \<and> pm = fetch_loop client 0 Map.empty bs)) \<and>
   (\<forall>pm. updater_fetch_latest_prices n symbols client = Inr pm \<longrightarrow>
      symbols = [] \<and> pm = Map.empty \<or>
      (\<exists>bs. updater_batches_of n symbols = Inr bs \<and> pm = fetch_loop client 0 Map.empty bs))"
proof (intro conjI)
  show "batches_of n symbols = Inr batches \<longrightarrow>
      fetch_latest_prices n symbols client = Inr (fetch_loop client 0 Map.empty batches)"
    by (intro impI planned_batches_fetched)
  show "updater_batches_of n symbols = Inr batches \<longrightarrow>
      updater_fetch_latest_prices n symbols client = Inr (fetch_loop client 0 Map.empty batches)"
    by (intro impI updater_planned_batches_fetched)
  show "batches_of n symbols = Inr batches \<or> updater_batches_of n symbols = Inr batches \<longrightarrow>
      (\<forall>b \<in> set batches. set b \<subseteq> set (symbol_set symbols)) \<and>
      (\<forall>s. s \<in> dom (fetch_loop client 0 Map.empty batches) \<longleftrightarrow>
         (\<exists>j items p. j < length batches \<and> client j (batches ! j) = Returns items \<and>
            (s, Trade (Some p)) \<in> set items)) \<and>
      ((\<forall>j items. j < length batches \<and> client j (batches ! j) = Returns items \<longrightarrow>
          fst ` set items \<subseteq> set (batches ! j)) \<longrightarrow>
         dom (fetch_loop client 0 Map.empty batches) \<subseteq> set (symbol_set symbols))"
  proof (intro impI conjI ballI allI)
    fix b
    assume "batches_of n symbols = Inr batches \<or> updater_batches_of n symbols = Inr batches"
      and "b \<in> set batches"
    then show "set b \<subseteq> set (symbol_set symbols)"
      by (rule planned_batches_hold_column_symbols)
  next
    fix s
    show "s \<in> dom (fetch_loop client 0 Map.empty batches) \<longleftrightarrow>
         (\<exists>j items p. j < length batches \<and> client j (batches ! j) = Returns items \<and>
            (s, Trade (Some p)) \<in> set items)"
      by (rule price_map_keys_iff)
  next
    assume "batches_of n symbols = Inr batches \<or> updater_batches_of n symbols = Inr batches"
      and "\<forall>j items. j < length batches \<and> client j (batches ! j) = Returns items \<longrightarrow>
          fst ` set items \<subseteq> set (batches ! j)"
    then show "dom (fetch_loop client 0 Map.empty batches) \<subseteq> set (symbol_set symbols)"
      by (rule faithful_answers_stay_in_column)
  qed
  show "\<forall>pm. fetch_latest_prices n symbols client = Inr pm \<longrightarrow>
      symbols = [] \<and> pm = Map.empty \<or>
      (\<exists>bs. batches_of n symbols = Inr bs \<and> pm = fetch_loop client 0 Map.empty bs)"
    by (intro allI impI returned_price_map_is_fetched(1))
  show "\<forall>pm. updater_fetch_latest_prices n symbols client = Inr pm \<longrightarrow>
      symbols = [] \<and> pm = Map.empty \<or>
      (\<exists>bs. updater_batches_of n symbols = Inr bs \<and> pm = fetch_loop client 0 Map.empty bs)"
    by (intro allI impI returned_price_map_is_fetched(2))
qed

theorem price_map_keys_come_from_answers_witness:
  "batches_of 1 [''AAPL'', ''AAPL'', ''SPY''] = Inr [[''AAPL''], [''SPY'']] \<and>
   fetch_latest_prices 1 [''AAPL'', ''AAPL'', ''SPY''] steady_feed =
     Inr (fetch_loop steady_feed 0 Map.empty [[''AAPL''], [''SPY'']]) \<and>
   set [''SPY''] \<subseteq> set (symbol_set [''AAPL'', ''AAPL'', ''SPY'']) \<and>
   ''SPY'' \<in> dom (fetch_loop steady_feed 0 Map.empty [[''AAPL''], [''SPY'']]) \<and>
   dom (fetch_loop steady_feed 0 Map.empty [[''AAPL''], [''SPY'']]) \<subseteq>
     set (symbol_set [''AAPL'', ''AAPL'', ''SPY'']) \<and>
   batches_of 150 [''AAPL''] = Inr [[''AAPL'']] \<and>
   ''MSFT'' \<in> dom (fetch_loop chatty_feed 0 Map.empty [[''AAPL'']])"
proof -
  let ?S = "[''AAPL'', ''AAPL'', ''SPY'']"
  let ?B = "[[''AAPL''], [''SPY'']]"
  have plan: "batches_of 1 ?S = Inr ?B"
    by code_simp
  note t = price_map_keys_come_from_answers [of 1 ?S ?B steady_feed]
  note fetched = t [THEN conjunct1, THEN mp, OF plan]
  note planned = t [THEN conjunct2, THEN conjunct2, THEN conjunct1, THEN mp, OF disjI1 [OF plan]]
  note column = planned [THEN conjunct1]
  note keys = planned [THEN conjunct2, THEN conjunct1]
  note contained = planned [THEN conjunct2, THEN conjunct2]
  have spy_batch: "set [''SPY''] \<subseteq> set (symbol_set ?S)"
    by (rule column [THEN bspec]) simp
  have "1 < length ?B \<and> steady_feed 1 (?B ! 1) = Returns [(''SPY'', Trade (Some 1))] \<and>
      (''SPY'', Trade (Some 1)) \<in> set [(''SPY'', Trade (Some 1))]"
    by (simp add: steady_feed_def)
  then have "\<exists>j items p. j < length ?B \<and> steady_feed j (?B ! j) = Returns items \<and>
      (''SPY'', Trade (Some p)) \<in> set items"
    by blast
  then have spy: "''SPY'' \<in> dom (fetch_loop steady_feed 0 Map.empty ?B)"
    by (rule keys [THEN spec, THEN iffD2])
  have faithful: "\<forall>j items. j < length ?B \<and> steady_feed j (?B ! j) = Returns items \<longrightarrow>
      fst ` set items \<subseteq> set (?B ! j)"
    by (auto simp: steady_feed_def)
  then have sub: "dom (fetch_loop steady_feed 0 Map.empty ?B) \<subseteq> set (symbol_set ?S)"
    by (rule contained [THEN mp])
  have plan': "batches_of 150 [''AAPL''] = Inr [[''AAPL'']]"
    by code_simp
  note u = price_map_keys_come_from_answers [of 150 "[''AAPL'']" "[[''AAPL'']]" chatty_feed]
  note keys' = u [THEN conjunct2, THEN conjunct2, THEN conjunct1, THEN mp, OF disjI1 [OF plan'],
      THEN conjunct2, THEN conjunct1]
  have "0 < length [[''AAPL'']] \<and>
      chatty_feed 0 ([[''AAPL'']] ! 0) = Returns [(''MSFT'', Trade (Some 1))] \<and>
      (''MSFT'', Trade (Some 1)) \<in> set [(''MSFT'', Trade (Some 1))]"
    by (simp add: chatty_feed_def)
  then have "\<exists>j items p. j < length [[''AAPL'']] \<and>
      chatty_feed j ([[''AAPL'']] ! j) = Returns items \<and> (''MSFT'', Trade (Some p)) \<in> set items"
    by blast
  then have msft: "''MSFT'' \<in> dom (fetch_loop chatty_feed 0 Map.empty [[''AAPL'']])"
    by (rule keys' [THEN spec, THEN iffD2])
  from plan fetched spy_batch spy sub plan' msft show ?thesis
    by (intro conjI)
qed

text \<open>
  The column lists AAPL only and the feed answers with MSFT: the price map gets the key
  MSFT, which is not in the symbol set.
\<close>

theorem unrequested_symbol_is_recorded:
  "get_rows_and_symbols [''SYMBOL'', ''AAPL''] = [(2, ''AAPL'')] \<and>
   symbol_set [''AAPL''] = [''AAPL''] \<and>
   batches_of 150 [''AAPL''] = Inr [[''AAPL'']] \<and>
   chatty_feed 0 [''AAPL''] = Returns [(''MSFT'', Trade (Some 1))] \<and>
   (case fetch_latest_prices 150 [''AAPL''] chatty_feed of
      Inl e \<Rightarrow> False | Inr pm \<Rightarrow> pm ''MSFT'' = Some 1) \<and>
   ''MSFT'' \<notin> set (symbol_set [''AAPL''])"
  by code_simp

section \<open>Repeating a cycle\<close>

lemma main_cycle_column_a: "col_values (main_cycle n client ws) 1 = col_values ws 1"
proof (rule col_values_cong)
  show "row_count (main_cycle n client ws) = row_count ws"
    and "number_format (main_cycle n client ws) = number_format ws"
    by (simp_all add: main_cycle_def foldl_perform_keeps_layout)
  show "cells (main_cycle n client ws) (1, r) = cells ws (1, r)" for r
    by (rule main_cycle_frame) simp
qed

lemma updater_cycle_column_a: "col_values (updater_cycle n client ts ws) 1 = col_values ws 1"
proof (rule col_values_cong)
  show "row_count (updater_cycle n client ts ws) = row_count ws"
    and "number_format (updater_cycle n client ts ws) = number_format ws"
    by (simp_all add: updater_cycle_def foldl_perform_keeps_layout)
  show "cells (updater_cycle n client ts ws) (1, r) = cells ws (1, r)" for r
    by (rule updater_cycle_frame) simp_all
qed

lemma foldl_perform_twice:
  "foldl perform (foldl perform ws calls) calls = foldl perform ws calls"
  by (simp add: foldl_perform assign_twice)

lemma main_cycle_idempotent: "main_cycle n client (main_cycle n client ws) = main_cycle n client ws"
proof -
  have "main_cycle n client (main_cycle n client ws) =
      foldl perform (main_cycle n client ws) (calls_of (cycle_calls n client (col_values ws 1)))"
    by (simp only: main_cycle_def [of n client "main_cycle n client ws"] main_cycle_column_a)
  then show ?thesis
    by (simp only: main_cycle_def [of n client ws] foldl_perform_twice)
qed

lemma updater_cycle_idempotent:
  "updater_cycle n client ts (updater_cycle n client ts ws) = updater_cycle n client ts ws"
proof -
  have "updater_cycle n client ts (updater_cycle n client ts ws) =
      foldl perform (updater_cycle n client ts ws)
        (calls_of (updater_cycle_calls n client ts (col_values ws 1)))"
    by (simp only: updater_cycle_def [of n client ts "updater_cycle n client ts ws"]
        updater_cycle_column_a)
  then show ?thesis
    by (simp only: updater_cycle_def [of n client ts ws] foldl_perform_twice)
qed

lemma column_b_is_not_price:
  "symbols \<noteq> [] \<Longrightarrow>
     \<not> list_all (\<lambda>a. fst a = 3)
         (cells_written (Update (Span 2 2 2 (length symbols + 1)) (map (\<lambda>s. [Text ts]) symbols)))"
  by (cases symbols) (simp_all add: cells_written_def range_assignments_def)

lemma column_c_is_price:
  "list_all (\<lambda>a. fst a = 3)
     (cells_written (Update (Span 3 2 3 (length symbols + 1)) (map (\<lambda>s. [f s]) symbols)))"
  by (simp add: cells_written_def column_assignments list_all_iff split_def del: assignments.simps)
    (auto simp: column_assignments)

lemma updater_price_calls:
  "price_calls (Inr (updater_write_prices ts symbols pm)) =
     (if symbols = [] then []
      else [Update (Span 3 2 3 (length symbols + 1)) (map (\<lambda>s. [price_cell pm s]) symbols)])"
  using column_b_is_not_price [of symbols ts] column_c_is_price [of symbols "price_cell pm"]
  by (simp add: price_calls_def calls_of_def updater_write_prices_calls)

lemma updater_price_calls_clock:
  "price_calls (updater_cycle_calls n client ts' col_a) =
   price_calls (updater_cycle_calls n client ts col_a)"
proof (cases "updater_get_tickers col_a = []")
  case True
  then show ?thesis by (simp add: updater_cycle_calls_def)
next
  case False
  show ?thesis
  proof (cases "updater_fetch_latest_prices n (updater_get_tickers col_a) client")
    case (Inl e)
    with False show ?thesis
      by (simp add: updater_cycle_calls_def price_calls_def calls_of_def)
  next
    case (Inr pm)
    with False show ?thesis
      by (simp add: updater_cycle_calls_def updater_price_calls)
  qed
qed

text \<open>
  C8. A cycle run again on the sheet it has just written, with the same answers from the
  feed, makes the same calls with the same values and leaves the sheet as it is:
  the writes do not touch column A and nothing else is carried from one cycle to the
  next. In the variant the time stamps follow the clock; its price writes do not depend
  on it.
\<close>

theorem repeated_cycle_is_identical:
  "cycle_calls n client (col_values (main_cycle n client ws) 1) =
     cycle_calls n client (col_values ws 1) \<and>
   main_cycle n client (main_cycle n client ws) = main_cycle n client ws \<and>
   updater_cycle_calls n client ts (col_values (updater_cycle n client ts ws) 1) =
     updater_cycle_calls n client ts (col_values ws 1) \<and>
   updater_cycle n client ts (updater_cycle n client ts ws) = updater_cycle n client ts ws \<and>
   price_calls (updater_cycle_calls n client ts' (col_values (updater_cycle n client ts ws) 1)) =
     price_calls (updater_cycle_calls n client ts (col_values ws 1))"
  by (simp only: main_cycle_column_a main_cycle_idempotent updater_cycle_column_a
      updater_cycle_idempotent updater_price_calls_clock [of n client ts' _ ts] simp_thms)

theorem repeated_cycle_is_identical_witness:
  "col_values scenario_sheet 1 = scenario_column \<and>
   cycle_calls 1 scenario_feed (col_values (main_cycle 1 scenario_feed scenario_sheet) 1) =
     Inr [BatchUpdate
           [\<lparr>u_range = Cell 3 2, u_values = [[Number 172.34]]\<rparr>,
            \<lparr>u_range = Cell 3 4, u_values = [[Number 172.34]]\<rparr>,
            \<lparr>u_range = Cell 3 5, u_values = [[Text []]]\<rparr>]] \<and>
   price_calls (updater_cycle_calls 1 scenario_feed ''12:01''
       (col_values (updater_cycle 1 scenario_feed ''12:00'' scenario_sheet) 1)) =
     [Update (Span 3 2 3 4) [[Number 172.34], [Number 172.34], [Text []]]]"
proof -
  have col: "col_values scenario_sheet 1 = scenario_column"
    by code_simp
  have "cycle_calls 1 scenario_feed scenario_column =
     Inr [BatchUpdate
           [\<lparr>u_range = Cell 3 2, u_values = [[Number 172.34]]\<rparr>,
            \<lparr>u_range = Cell 3 4, u_values = [[Number 172.34]]\<rparr>,
            \<lparr>u_range = Cell 3 5, u_values = [[Text []]]\<rparr>]]"
    by code_simp
  moreover have "price_calls (updater_cycle_calls 1 scenario_feed ''12:00'' scenario_column) =
     [Update (Span 3 2 3 4) [[Number 172.34], [Number 172.34], [Text []]]]"
    by code_simp
  ultimately show ?thesis
    using repeated_cycle_is_identical [of 1 scenario_feed scenario_sheet "''12:00''" "''12:01''"] col
    by simp
qed

text \<open>
  The variant on the same column with the same answers, at two readings of the clock:
  the values written to column B differ, those written to column C do not.
\<close>

theorem time_stamps_follow_the_clock:
  "updater_cycle_calls 1 scenario_feed ''12:00'' [''SYMBOL'', ''AAPL''] =
     Inr [Update (Span 2 2 2 2) [[Text ''12:00'']], Update (Span 3 2 3 2) [[Number 172.34]]] \<and>
   updater_cycle_calls 1 scenario_feed ''12:01'' [''SYMBOL'', ''AAPL''] =
     Inr [Update (Span 2 2 2 2) [[Text ''12:01'']], Update (Span 3 2 3 2) [[Number 172.34]]]"
  by code_simp

end
